theory Spec2Isabelle
  imports Main "HOL-Library.AList" "HOL-Library.Product_Lexorder"
begin

section \<open>The SparseMatrix class of the repository, as a shallow embedding\<close>

text \<open>
  The class \<^verbatim>\<open>SparseMatrix\<close> keeps its non-zero entries in a JavaScript object whose
  keys are the strings \<^verbatim>\<open>"<row>,<col>"\<close>.  The object is modelled as an association
  list in insertion order (the order in which \<^verbatim>\<open>for (key in elements)\<close> visits keys
  of this shape); an assignment to a present key keeps its position, an assignment to an
  absent key appends, \<^verbatim>\<open>delete\<close> removes.

  JavaScript numbers are doubles.  The numbers of the class are integers (decimal digits,
  negation, sums, differences and products), and they are modelled as integers: a sum, a
  difference or a product is rounded to the nearest double (\<open>roundToDouble\<close>), which
  leaves every integer of magnitude up to \<open>2^53\<close> as it is.  Reading and printing a
  number (\<open>parseInt\<close>, \<open>showInt\<close>) are modelled on the safe integers, those of magnitude
  below \<open>2^53\<close>, where JavaScript reads every digit exactly and prints plain decimal
  digits; beyond them the code rounds while reading and prints a shortened or exponent
  form, and beyond \<open>2^1024\<close> a double is infinite.  The theorems on the round
  trip, the final dimensions, negative coordinates, sums and products carry the range
  in their hypotheses (\<open>safeDocument\<close>, \<open>safeDims\<close>, \<open>exactSums\<close>, \<open>exactProducts\<close>).
  JavaScript's \<open>-0\<close> is the integer \<open>0\<close>: the code never
  tells them apart.  Characters are bytes.

  A function that throws returns \<open>Inl\<close> of the error; a method that changes the matrix
  returns the changed matrix.  \<^verbatim>\<open>getElement\<close> assigns to no field, so it returns a
  value only.  Reading and writing files is left to the caller: \<open>loadFromFile\<close> takes the
  text of the file, and \<open>toString\<close> gives the text \<^verbatim>\<open>saveToFile\<close> writes.
\<close>

subsection \<open>Errors\<close>

text \<open>
  One constructor for each \<^verbatim>\<open>throw\<close> of the class.  \<open>BadKey\<close> stands for a key of
  \<^verbatim>\<open>elements\<close> that does not split into two integers; the class writes keys only
  through \<^verbatim>\<open>_createKey\<close>, so the case is not reachable (lemma \<open>parseKey_createKey\<close>).
\<close>

datatype error =
    InsufficientData
  | RowsNotFound
  | ColsNotFound
  | InvalidDimensions
  | WrongFormatAtLine nat string
  | WrongFormat
  | IndexOutOfBounds int int int int
  | DimensionMismatch
  | BadKey string

text \<open>\<^verbatim>\<open>error.message.includes("wrong format")\<close>, on the messages of the class.\<close>

fun includesWrongFormat :: "error \<Rightarrow> bool" where
  "includesWrongFormat InsufficientData = True"
| "includesWrongFormat RowsNotFound = True"
| "includesWrongFormat ColsNotFound = True"
| "includesWrongFormat InvalidDimensions = True"
| "includesWrongFormat (WrongFormatAtLine i line) = True"
| "includesWrongFormat WrongFormat = True"
| "includesWrongFormat (IndexOutOfBounds row col r c) = False"
| "includesWrongFormat DimensionMismatch = False"
| "includesWrongFormat (BadKey k) = False"

subsection \<open>String helpers\<close>

text \<open>\<^verbatim>\<open>str.startsWith(p)\<close>, \<^verbatim>\<open>str.endsWith(p)\<close>, \<^verbatim>\<open>str.substring(a, b)\<close> for \<open>a \<le> b\<close>.\<close>

definition startsWith :: "string \<Rightarrow> string \<Rightarrow> bool" where
  "startsWith str p \<longleftrightarrow> take (length p) str = p"

definition endsWith :: "string \<Rightarrow> string \<Rightarrow> bool" where
  "endsWith str p \<longleftrightarrow> length p \<le> length str \<and> drop (length str - length p) str = p"

definition substring :: "string \<Rightarrow> nat \<Rightarrow> nat \<Rightarrow> string" where
  "substring str a b = take (b - a) (drop a str)"

text \<open>
  \<^verbatim>\<open>_splitString(str, delimiter)\<close>, for the one-character delimiters the class uses: as
  long as the delimiter occurs, the text before it is pushed and the scan goes on behind it;
  the rest is pushed last.
\<close>

function splitString :: "string \<Rightarrow> char \<Rightarrow> string list" where
  "splitString str d =
     (if d \<in> set str
      then takeWhile (\<lambda>c. c \<noteq> d) str # splitString (tl (dropWhile (\<lambda>c. c \<noteq> d) str)) d
      else [str])"
  by pat_completeness auto
termination
proof (relation "measure (\<lambda>(str, d). length str)")
  show "wf (measure (\<lambda>(str, d). length str))" by simp
next
  fix str :: string and d :: char
  assume "d \<in> set str"
  then have "dropWhile (\<lambda>c. c \<noteq> d) str \<noteq> []" by simp
  then have "length (tl (dropWhile (\<lambda>c. c \<noteq> d) str)) < length (dropWhile (\<lambda>c. c \<noteq> d) str)"
    by (cases "dropWhile (\<lambda>c. c \<noteq> d) str") simp_all
  also have "\<dots> \<le> length str" by (rule length_dropWhile_le)
  finally show "((tl (dropWhile (\<lambda>c. c \<noteq> d) str), d), (str, d)) \<in> measure (\<lambda>(str, d). length str)"
    by simp
qed

declare splitString.simps [simp del]

text \<open>\<^verbatim>\<open>_trim(str)\<close>: blanks, tabs, line feeds and carriage returns go from both ends.\<close>

definition isSpace :: "char \<Rightarrow> bool" where
  "isSpace c \<longleftrightarrow> c = CHR '' '' \<or> c = CHR 0x09 \<or> c = CHR 0x0A \<or> c = CHR 0x0D"

definition trim :: "string \<Rightarrow> string" where
  "trim str = rev (dropWhile isSpace (rev (dropWhile isSpace str)))"

text \<open>
  \<^verbatim>\<open>_parseInt(str)\<close>.  \<open>None\<close> is \<^verbatim>\<open>NaN\<close>.  The empty string is \<^verbatim>\<open>NaN\<close>; after an
  optional leading minus sign every character must be a digit, and no digit at all gives
  \<open>0\<close> (JavaScript's \<open>-0\<close> for a lone minus sign, which equals \<open>0\<close>).
\<close>

definition isDigit :: "char \<Rightarrow> bool" where
  "isDigit c \<longleftrightarrow> \<not> ((of_char c :: nat) < 48 \<or> (of_char c :: nat) > 57)"

fun parseDigits :: "int \<Rightarrow> string \<Rightarrow> int option" where
  "parseDigits result [] = Some result"
| "parseDigits result (c # cs) =
     (if \<not> isDigit c then None
      else parseDigits (result * 10 + (int (of_char c) - 48)) cs)"

definition parseInt :: "string \<Rightarrow> int option" where
  "parseInt str =
     (case str of
        [] \<Rightarrow> None
      | c # cs \<Rightarrow>
          if c = CHR ''-'' then map_option uminus (parseDigits 0 cs)
          else parseDigits 0 str)"

text \<open>
  The decimal text JavaScript gives an integer in a template literal (\<^verbatim>\<open>`${n}`\<close>).
\<close>

fun showNat :: "nat \<Rightarrow> string" where
  "showNat n =
     (if n < 10 then [char_of (48 + n)]
      else showNat (n div 10) @ [char_of (48 + n mod 10)])"

declare showNat.simps [simp del]

definition showInt :: "int \<Rightarrow> string" where
  "showInt i = (if i < 0 then CHR ''-'' # showNat (nat (- i)) else showNat (nat i))"

subsection \<open>Double arithmetic on integers\<close>

text \<open>
  The double nearest to an integer, ties to the even significand: an integer of magnitude
  up to \<open>2^53\<close> is a double; a larger one keeps its 53 leading bits.  \<open>bitLength\<close> is the
  number of bits of a positive integer.  The exponent is not bounded here: a magnitude
  of \<open>2^1024\<close> or more, infinite in JavaScript, stays finite.
\<close>

function bitLength :: "int \<Rightarrow> nat" where
  "bitLength n = (if n \<le> 0 then 0 else Suc (bitLength (n div 2)))"
  by pat_completeness auto
termination
  by (relation "measure nat") auto

declare bitLength.simps [simp del]

definition roundToDouble :: "int \<Rightarrow> int" where
  "roundToDouble x =
     (if \<bar>x\<bar> \<le> 2 ^ 53 then x
      else
        let a = \<bar>x\<bar>;
            q = 2 ^ (bitLength a - 53);
            lo = a div q;
            r = a mod q;
            m = (if 2 * r > q \<or> (2 * r = q \<and> odd lo) then lo + 1 else lo)
        in sgn x * (m * q))"

subsection \<open>The matrix\<close>

record SparseMatrix =
  rows :: int
  cols :: int
  elements :: "(string \<times> int) list"
  elementCount :: int

text \<open>\<^verbatim>\<open>new SparseMatrix(null, numRows, numCols)\<close>.\<close>

definition newMatrix :: "int \<Rightarrow> int \<Rightarrow> SparseMatrix" where
  "newMatrix numRows numCols =
     \<lparr>rows = numRows, cols = numCols, elements = [], elementCount = 0\<rparr>"

definition createKey :: "int \<Rightarrow> int \<Rightarrow> string" where
  "createKey row col = showInt row @ '','' @ showInt col"

text \<open>
  What every loop over \<^verbatim>\<open>elements\<close> does with a key: split at the comma, parse the first
  two parts.
\<close>

definition parseKey :: "string \<Rightarrow> (int \<times> int) option" where
  "parseKey key =
     (case splitString key (CHR '','') of
        rowStr # colStr # rest \<Rightarrow>
          (case (parseInt rowStr, parseInt colStr) of
             (Some row, Some col) \<Rightarrow> Some (row, col)
           | _ \<Rightarrow> None)
      | _ \<Rightarrow> None)"

definition outOfBounds :: "SparseMatrix \<Rightarrow> int \<Rightarrow> int \<Rightarrow> bool" where
  "outOfBounds m row col \<longleftrightarrow> row < 0 \<or> row \<ge> rows m \<or> col < 0 \<or> col \<ge> cols m"

definition getElement :: "SparseMatrix \<Rightarrow> int \<Rightarrow> int \<Rightarrow> error + int" where
  "getElement m row col =
     (if outOfBounds m row col then Inl (IndexOutOfBounds row col (rows m) (cols m))
      else
        (case map_of (elements m) (createKey row col) of
           Some v \<Rightarrow> Inr v
         | None \<Rightarrow> Inr 0))"

definition setElement :: "SparseMatrix \<Rightarrow> int \<Rightarrow> int \<Rightarrow> int \<Rightarrow> error + SparseMatrix" where
  "setElement m row col value =
     (if outOfBounds m row col then Inl (IndexOutOfBounds row col (rows m) (cols m))
      else
        let key = createKey row col in
        if value = 0 then
          (if map_of (elements m) key \<noteq> None
           then Inr (m\<lparr>elements := AList.delete key (elements m),
                      elementCount := elementCount m - 1\<rparr>)
           else Inr m)
        else
          Inr (m\<lparr>elements := AList.update key value (elements m),
                 elementCount :=
                   (if map_of (elements m) key = None then elementCount m + 1
                    else elementCount m)\<rparr>))"

subsection \<open>Parsing\<close>

text \<open>\<^verbatim>\<open>_parseElementLine(line)\<close>; \<open>None\<close> is \<^verbatim>\<open>null\<close>.\<close>

definition parseElementLine :: "string \<Rightarrow> (int \<times> int \<times> int) option" where
  "parseElementLine line =
     (if \<not> startsWith line ''('' \<or> \<not> endsWith line '')'' then None
      else
        let inner = substring line 1 (length line - 1);
            parts = splitString inner (CHR '','')
        in
          if length parts \<noteq> 3 then None
          else
            (case (parseInt (trim (parts ! 0)), parseInt (trim (parts ! 1)),
                   parseInt (trim (parts ! 2))) of
               (Some row, Some col, Some value) \<Rightarrow> Some (row, col, value)
             | _ \<Rightarrow> None))"

text \<open>The lines of the file that are not blank, trimmed.\<close>

definition validLinesOf :: "string \<Rightarrow> string list" where
  "validLinesOf data = filter (\<lambda>l. l \<noteq> []) (map trim (splitString data (CHR 0x0A)))"

text \<open>
  First pass of \<^verbatim>\<open>loadFromFile\<close>, from line index \<open>i\<close>: every line must parse; the
  running maxima start at \<open>0\<close>; the parsed entries are kept in order.
\<close>

fun firstPass ::
  "nat \<Rightarrow> string list \<Rightarrow> int \<Rightarrow> int \<Rightarrow> (int \<times> int \<times> int) list
     \<Rightarrow> error + (int \<times> int \<times> (int \<times> int \<times> int) list)" where
  "firstPass i [] maxRow maxCol validElements = Inr (maxRow, maxCol, validElements)"
| "firstPass i (line # ls) maxRow maxCol validElements =
     (case parseElementLine line of
        None \<Rightarrow> Inl (WrongFormatAtLine (i + 1) line)
      | Some (row, col, value) \<Rightarrow>
          firstPass (i + 1) ls (max maxRow row) (max maxCol col)
            (validElements @ [(row, col, value)]))"

text \<open>Second pass: the non-zero entries are stored with \<^verbatim>\<open>setElement\<close>.\<close>

fun secondPass :: "SparseMatrix \<Rightarrow> (int \<times> int \<times> int) list \<Rightarrow> error + SparseMatrix" where
  "secondPass m [] = Inr m"
| "secondPass m ((row, col, value) # es) =
     (if value \<noteq> 0 then
        (case setElement m row col value of
           Inl e \<Rightarrow> Inl e
         | Inr m' \<Rightarrow> secondPass m' es)
      else secondPass m es)"

text \<open>
  The \<^verbatim>\<open>try\<close> block of \<^verbatim>\<open>loadFromFile\<close>, on the text of the file (reading the file
  is left to the caller).
\<close>

definition loadBody :: "string \<Rightarrow> error + SparseMatrix" where
  "loadBody data =
     (let validLines = validLinesOf data in
      if length validLines < 3 then Inl InsufficientData
      else
        let rowsLine = validLines ! 0 in
        if \<not> startsWith rowsLine ''rows='' then Inl RowsNotFound
        else
          let declRows = parseInt (drop 5 rowsLine);
              colsLine = validLines ! 1
          in
          if \<not> startsWith colsLine ''cols='' then Inl ColsNotFound
          else
            (case (declRows, parseInt (drop 5 colsLine)) of
               (Some r, Some c) \<Rightarrow>
                 if r \<le> 0 \<or> c \<le> 0 then Inl InvalidDimensions
                 else
                   (case firstPass 2 (drop 2 validLines) 0 0 [] of
                      Inl e \<Rightarrow> Inl e
                    | Inr (maxRow, maxCol, validElements) \<Rightarrow>
                        secondPass
                          (if maxRow \<ge> r \<or> maxCol \<ge> c
                           then newMatrix (roundToDouble (maxRow + 1))
                                  (roundToDouble (maxCol + 1))
                           else newMatrix r c)
                          validElements)
             | _ \<Rightarrow> Inl InvalidDimensions))"

text \<open>
  The \<^verbatim>\<open>catch\<close> block: an error whose message contains "wrong format" becomes the
  uniform \<open>WrongFormat\<close>, any other error is thrown again as it is.
\<close>

definition loadFromFile :: "string \<Rightarrow> error + SparseMatrix" where
  "loadFromFile data =
     (case loadBody data of
        Inl e \<Rightarrow> if includesWrongFormat e then Inl WrongFormat else Inl e
      | Inr m \<Rightarrow> Inr m)"

subsection \<open>Arithmetic\<close>

text \<open>
  The first loop of \<^verbatim>\<open>add\<close> and \<^verbatim>\<open>subtract\<close>: every entry of \<^verbatim>\<open>this\<close> is set in the
  result.
\<close>

fun copyEntries :: "SparseMatrix \<Rightarrow> (string \<times> int) list \<Rightarrow> error + SparseMatrix" where
  "copyEntries result [] = Inr result"
| "copyEntries result ((key, v) # es) =
     (case parseKey key of
        None \<Rightarrow> Inl (BadKey key)
      | Some (row, col) \<Rightarrow>
          (case setElement result row col v of
             Inl e \<Rightarrow> Inl e
           | Inr result' \<Rightarrow> copyEntries result' es))"

text \<open>
  The second loop, with \<open>f\<close> the sum (in \<^verbatim>\<open>add\<close>) or the difference (in
  \<^verbatim>\<open>subtract\<close>) of doubles: the entry of the result is read, combined with the other
  matrix's value and written back.
\<close>

fun combineEntries ::
  "(int \<Rightarrow> int \<Rightarrow> int) \<Rightarrow> SparseMatrix \<Rightarrow> (string \<times> int) list \<Rightarrow> error + SparseMatrix" where
  "combineEntries f result [] = Inr result"
| "combineEntries f result ((key, v) # es) =
     (case parseKey key of
        None \<Rightarrow> Inl (BadKey key)
      | Some (row, col) \<Rightarrow>
          (case getElement result row col of
             Inl e \<Rightarrow> Inl e
           | Inr currentValue \<Rightarrow>
               (case setElement result row col (f currentValue v) of
                  Inl e \<Rightarrow> Inl e
                | Inr result' \<Rightarrow> combineEntries f result' es)))"

definition add :: "SparseMatrix \<Rightarrow> SparseMatrix \<Rightarrow> error + SparseMatrix" where
  "add this matrix =
     (if rows this \<noteq> rows matrix \<or> cols this \<noteq> cols matrix then Inl DimensionMismatch
      else
        (case copyEntries (newMatrix (rows this) (cols this)) (elements this) of
           Inl e \<Rightarrow> Inl e
         | Inr result \<Rightarrow>
             combineEntries (\<lambda>a b. roundToDouble (a + b)) result (elements matrix)))"

definition subtract :: "SparseMatrix \<Rightarrow> SparseMatrix \<Rightarrow> error + SparseMatrix" where
  "subtract this matrix =
     (if rows this \<noteq> rows matrix \<or> cols this \<noteq> cols matrix then Inl DimensionMismatch
      else
        (case copyEntries (newMatrix (rows this) (cols this)) (elements this) of
           Inl e \<Rightarrow> Inl e
         | Inr result \<Rightarrow>
             combineEntries (\<lambda>a b. roundToDouble (a - b)) result (elements matrix)))"

text \<open>The inner loop of \<^verbatim>\<open>multiply\<close>, for one entry of \<^verbatim>\<open>this\<close>.\<close>

fun multiplyInner ::
  "int \<Rightarrow> int \<Rightarrow> int \<Rightarrow> SparseMatrix \<Rightarrow> (string \<times> int) list \<Rightarrow> error + SparseMatrix" where
  "multiplyInner rowA colA valueA result [] = Inr result"
| "multiplyInner rowA colA valueA result ((keyB, valueB) # bs) =
     (case parseKey keyB of
        None \<Rightarrow> Inl (BadKey keyB)
      | Some (rowB, colB) \<Rightarrow>
          if colA = rowB then
            (let product = roundToDouble (valueA * valueB) in
             if product \<noteq> 0 then
               (case getElement result rowA colB of
                  Inl e \<Rightarrow> Inl e
                | Inr currentValue \<Rightarrow>
                    (case setElement result rowA colB
                            (roundToDouble (currentValue + product)) of
                       Inl e \<Rightarrow> Inl e
                     | Inr result' \<Rightarrow> multiplyInner rowA colA valueA result' bs))
             else multiplyInner rowA colA valueA result bs)
          else multiplyInner rowA colA valueA result bs)"

fun multiplyOuter ::
  "(string \<times> int) list \<Rightarrow> SparseMatrix \<Rightarrow> (string \<times> int) list \<Rightarrow> error + SparseMatrix" where
  "multiplyOuter elemsB result [] = Inr result"
| "multiplyOuter elemsB result ((keyA, valueA) # as) =
     (case parseKey keyA of
        None \<Rightarrow> Inl (BadKey keyA)
      | Some (rowA, colA) \<Rightarrow>
          (case multiplyInner rowA colA valueA result elemsB of
             Inl e \<Rightarrow> Inl e
           | Inr result' \<Rightarrow> multiplyOuter elemsB result' as))"

definition multiply :: "SparseMatrix \<Rightarrow> SparseMatrix \<Rightarrow> error + SparseMatrix" where
  "multiply this matrix =
     (if cols this \<noteq> rows matrix then Inl DimensionMismatch
      else multiplyOuter (elements matrix) (newMatrix (rows this) (cols matrix)) (elements this))"

subsection \<open>Serialisation\<close>

text \<open>
  \<^verbatim>\<open>toString()\<close>: the header, then one line for each entry, the entries sorted by row
  and then by column (the comparator of the source is the lexicographic order on the pair;
  the sort is stable).
\<close>

fun collectEntries :: "(string \<times> int) list \<Rightarrow> error + (int \<times> int \<times> int) list" where
  "collectEntries [] = Inr []"
| "collectEntries ((key, v) # es) =
     (case parseKey key of
        None \<Rightarrow> Inl (BadKey key)
      | Some (row, col) \<Rightarrow>
          (case collectEntries es of
             Inl e \<Rightarrow> Inl e
           | Inr entries \<Rightarrow> Inr ((row, col, v) # entries)))"

definition entryText :: "int \<times> int \<times> int \<Rightarrow> string" where
  "entryText e =
     (case e of (row, col, value) \<Rightarrow>
        ''('' @ showInt row @ '', '' @ showInt col @ '', '' @ showInt value @ '')'')"

definition toString :: "SparseMatrix \<Rightarrow> error + string" where
  "toString m =
     (case collectEntries (elements m) of
        Inl e \<Rightarrow> Inl e
      | Inr entries \<Rightarrow>
          Inr (''rows='' @ showInt (rows m) @ [CHR 0x0A] @ ''cols='' @ showInt (cols m) @ [CHR 0x0A]
               @ concat (map (\<lambda>e. entryText e @ [CHR 0x0A])
                   (sort_key (\<lambda>(row, col, value). (row, col)) entries))))"

subsection \<open>Notions used in the statements\<close>

text \<open>The value \<^verbatim>\<open>getElement\<close> finds at a coordinate, without the bounds check.\<close>

definition cell :: "SparseMatrix \<Rightarrow> int \<Rightarrow> int \<Rightarrow> int" where
  "cell m row col =
     (case map_of (elements m) (createKey row col) of Some v \<Rightarrow> v | None \<Rightarrow> 0)"

text \<open>
  A key is in bounds for dimensions \<open>r\<close>, \<open>c\<close> when it is the key \<^verbatim>\<open>_createKey\<close> writes
  for a coordinate that passes the bounds check of \<^verbatim>\<open>setElement\<close>.
\<close>

definition keyInBounds :: "int \<Rightarrow> int \<Rightarrow> string \<Rightarrow> bool" where
  "keyInBounds r c key =
     (case parseKey key of
        None \<Rightarrow> False
      | Some (row, col) \<Rightarrow>
          key = createKey row col \<and> 0 \<le> row \<and> row < r \<and> 0 \<le> col \<and> col < c)"

text \<open>
  The association list stands for a JavaScript object filled by \<^verbatim>\<open>setElement\<close>: no key
  occurs twice, and every key is in bounds.
\<close>

definition wellKeyed :: "SparseMatrix \<Rightarrow> bool" where
  "wellKeyed m \<longleftrightarrow>
     distinct (map fst (elements m)) \<and>
     list_all (keyInBounds (rows m) (cols m)) (map fst (elements m))"

text \<open>
  The invariant of the data model: no stored value is zero, and \<^verbatim>\<open>elementCount\<close> is the
  number of stored entries.  The entries of the list are the entries of the object when no
  key occurs twice, which is part of the invariant.
\<close>

definition sparsityInvariant :: "SparseMatrix \<Rightarrow> bool" where
  "sparsityInvariant m \<longleftrightarrow>
     distinct (map fst (elements m)) \<and>
     list_all (\<lambda>kv. snd kv \<noteq> 0) (elements m) \<and>
     elementCount m = int (length (elements m))"

text \<open>
  A text is a valid document when it has at least three lines that are not blank, the first
  two are \<^verbatim>\<open>rows=\<close> and \<^verbatim>\<open>cols=\<close> with positive integers, and every further line
  parses as an entry.  \<open>documentParts\<close> gives the declared dimensions and the parsed
  entries of a valid document, and \<open>None\<close> for any other text.
\<close>

definition documentParts :: "string \<Rightarrow> (int \<times> int \<times> (int \<times> int \<times> int) list) option" where
  "documentParts data =
     (let validLines = validLinesOf data in
      if length validLines < 3 then None
      else if \<not> startsWith (validLines ! 0) ''rows='' \<or> \<not> startsWith (validLines ! 1) ''cols=''
      then None
      else
        (case (parseInt (drop 5 (validLines ! 0)), parseInt (drop 5 (validLines ! 1)),
               those (map parseElementLine (drop 2 validLines))) of
           (Some r, Some c, Some es) \<Rightarrow> if r \<le> 0 \<or> c \<le> 0 then None else Some (r, c, es)
         | _ \<Rightarrow> None))"

text \<open>
  The dimensions \<^verbatim>\<open>loadFromFile\<close> settles on, from the declared ones and the parsed
  entries: the running maxima start at \<open>0\<close>.
\<close>

definition finalDims :: "int \<Rightarrow> int \<Rightarrow> (int \<times> int \<times> int) list \<Rightarrow> int \<times> int" where
  "finalDims r c es =
     (let maxRow = foldl max 0 (map fst es);
          maxCol = foldl max 0 (map (\<lambda>e. fst (snd e)) es)
      in if maxRow \<ge> r \<or> maxCol \<ge> c
         then (roundToDouble (maxRow + 1), roundToDouble (maxCol + 1))
         else (r, c))"

text \<open>
  The dimension rule in the words of the specification: \<open>maxRow\<close> and \<open>maxCol\<close> are the
  maxima of the row and column coordinates over the parsed entries.
\<close>

definition spec_finalDims :: "int \<Rightarrow> int \<Rightarrow> (int \<times> int \<times> int) list \<Rightarrow> int \<times> int" where
  "spec_finalDims r c es =
     (let maxRow = Max (set (map fst es));
          maxCol = Max (set (map (\<lambda>e. fst (snd e)) es))
      in if maxRow \<ge> r \<or> maxCol \<ge> c then (maxRow + 1, maxCol + 1) else (r, c))"

text \<open>The same lookup in a list of entries.\<close>

definition lookupEntry :: "(string \<times> int) list \<Rightarrow> int \<Rightarrow> int \<Rightarrow> int" where
  "lookupEntry es row col =
     (case map_of es (createKey row col) of Some v \<Rightarrow> v | None \<Rightarrow> 0)"

text \<open>
  The matrix product entry in the words of the specification: the sum over the inner
  index \<open>k\<close> of \<^verbatim>\<open>A.getElement(i, k) * B.getElement(k, j)\<close>.
\<close>

definition spec_productCell :: "SparseMatrix \<Rightarrow> SparseMatrix \<Rightarrow> int \<Rightarrow> int \<Rightarrow> int" where
  "spec_productCell a b i j =
     (\<Sum>k\<leftarrow>[0..<nat (cols a)].
        (case getElement a i (int k) of Inr x \<Rightarrow> x | Inl e \<Rightarrow> 0)
        * (case getElement b (int k) j of Inr y \<Rightarrow> y | Inl e \<Rightarrow> 0))"

text \<open>
  The ranges in which the model's integers are the code's numbers.  A safe integer
  (\<^verbatim>\<open>Number.isSafeInteger\<close>) has a magnitude below \<open>2^53\<close>; a document is safe when
  every number in it is; the dimensions of a matrix are safe when its keys are printed
  and read back exactly.
\<close>

definition safeInteger :: "int \<Rightarrow> bool" where
  "safeInteger n \<longleftrightarrow> \<bar>n\<bar> < 2 ^ 53"

definition safeDocument :: "int \<Rightarrow> int \<Rightarrow> (int \<times> int \<times> int) list \<Rightarrow> bool" where
  "safeDocument r c es \<longleftrightarrow>
     safeInteger r \<and> safeInteger c \<and>
     list_all (\<lambda>e. safeInteger (fst e) \<and> safeInteger (fst (snd e)) \<and> safeInteger (snd (snd e))) es"

definition safeDims :: "SparseMatrix \<Rightarrow> bool" where
  "safeDims m \<longleftrightarrow> rows m \<le> 2 ^ 53 \<and> cols m \<le> 2 ^ 53"

text \<open>
  The sums of \<open>a.add(b)\<close> and the differences of subtracting \<open>b\<close> again are exact: at
  every entry of \<open>b\<close>, the value of \<open>a\<close> and the sum of the two have a magnitude of at
  most \<open>2^53\<close>.
\<close>

definition exactSums :: "SparseMatrix \<Rightarrow> SparseMatrix \<Rightarrow> bool" where
  "exactSums a b \<longleftrightarrow>
     list_all
       (\<lambda>kv. case parseKey (fst kv) of
               None \<Rightarrow> False
             | Some (i, j) \<Rightarrow> \<bar>cell a i j\<bar> \<le> 2 ^ 53 \<and> \<bar>cell a i j + snd kv\<bar> \<le> 2 ^ 53)
       (elements b)"

text \<open>
  The products and partial sums of \<open>a.multiply(b)\<close> are exact: at every coordinate of
  the result, the magnitudes of the products \<open>a(i, k) * b(k, j)\<close> add up to at most \<open>2^53\<close>.
\<close>

definition exactProducts :: "SparseMatrix \<Rightarrow> SparseMatrix \<Rightarrow> bool" where
  "exactProducts a b \<longleftrightarrow>
     list_all
       (\<lambda>i. list_all
              (\<lambda>j. (\<Sum>k\<leftarrow>[0..<nat (cols a)].
                       \<bar>cell a (int i) (int k) * cell b (int k) (int j)\<bar>) \<le> 2 ^ 53)
              [0..<nat (cols b)])
       [0..<nat (rows a)]"

section \<open>Lemmas\<close>

subsection \<open>Splitting, digits and decimal text\<close>

lemma splitString_none: "d \<notin> set s \<Longrightarrow> splitString s d = [s]"
  by (simp add: splitString.simps)

lemma splitString_append:
  assumes "d \<notin> set a"
  shows "splitString (a @ d # rest) d = a # splitString rest d"
proof -
  have tw: "takeWhile (\<lambda>c. c \<noteq> d) (a @ d # rest) = a"
    using assms by (induction a) auto
  have dw: "dropWhile (\<lambda>c. c \<noteq> d) (a @ d # rest) = d # rest"
    using assms by (induction a) auto
  show ?thesis
    by (subst splitString.simps) (simp add: tw dw)
qed

lemma isDigit_digit: "(n::nat) < 10 \<Longrightarrow> isDigit (char_of (48 + n))"
  by (simp add: isDigit_def)

lemma digit_value: "(n::nat) < 10 \<Longrightarrow> int (of_char (char_of (48 + n))) - 48 = int n"
  by simp

lemma showNat_digits: "c \<in> set (showNat n) \<Longrightarrow> isDigit c"
proof (induction n arbitrary: c rule: showNat.induct)
  case (1 n)
  show ?case
  proof (cases "n < 10")
    case True
    with "1.prems" show ?thesis
      by (subst (asm) showNat.simps) (auto intro: isDigit_digit)
  next
    case False
    with "1.prems" have "c \<in> set (showNat (n div 10)) \<or> c = char_of (48 + n mod 10)"
      by (subst (asm) showNat.simps) auto
    then show ?thesis
      using "1.IH" False by (auto intro: isDigit_digit)
  qed
qed

lemma showNat_nonempty: "showNat n \<noteq> []"
  by (subst showNat.simps) simp

lemma parseDigits_snoc:
  "parseDigits acc (xs @ [c]) =
     (case parseDigits acc xs of
        None \<Rightarrow> None
      | Some a \<Rightarrow> if isDigit c then Some (a * 10 + (int (of_char c) - 48)) else None)"
  by (induction xs arbitrary: acc) auto

lemma parseDigits_showNat: "parseDigits 0 (showNat n) = Some (int n)"
proof (induction n rule: showNat.induct)
  case (1 n)
  show ?case
  proof (cases "n < 10")
    case True
    then show ?thesis
      by (subst showNat.simps) (simp add: isDigit_digit)
  next
    case False
    have m: "n mod 10 < 10" by simp
    have "parseDigits 0 (showNat n) = parseDigits 0 (showNat (n div 10) @ [char_of (48 + n mod 10)])"
      using False by (subst showNat.simps) simp
    also have "\<dots> = Some (int (n div 10) * 10 + int (n mod 10))"
      using "1.IH" False isDigit_digit [OF m] digit_value [OF m]
      by (simp add: parseDigits_snoc del: of_char_of of_nat_add)
    also have "int (n div 10) * 10 + int (n mod 10) = int n"
      by (simp add: zmod_int zdiv_int)
    finally show ?thesis .
  qed
qed

lemma isDigit_not_minus: "isDigit c \<Longrightarrow> c \<noteq> CHR ''-''"
  by (auto simp: isDigit_def)

lemma parseInt_showInt: "parseInt (showInt i) = Some i"
proof (cases "i < 0")
  case True
  then show ?thesis
    by (simp add: parseInt_def showInt_def parseDigits_showNat)
next
  case False
  obtain c cs where s: "showNat (nat i) = c # cs"
    using showNat_nonempty by (cases "showNat (nat i)") auto
  then have "c \<in> set (showNat (nat i))" by simp
  then have "c \<noteq> CHR ''-''" using showNat_digits isDigit_not_minus by blast
  then have "parseInt (c # cs) = parseDigits 0 (c # cs)"
    by (simp add: parseInt_def)
  with s False show ?thesis
    using parseDigits_showNat [of "nat i"] by (simp add: showInt_def)
qed

subsection \<open>Keys and \<^verbatim>\<open>setElement\<close>\<close>

lemma showInt_chars: "ch \<in> set (showInt i) \<Longrightarrow> isDigit ch \<or> ch = CHR ''-''"
  by (auto simp: showInt_def dest: showNat_digits split: if_splits)

lemma showInt_no_comma: "CHR '','' \<notin> set (showInt i)"
  using showInt_chars [of "CHR '',''" i] by (auto simp: isDigit_def)

lemma showInt_no_newline: "CHR 0x0A \<notin> set (showInt i)"
  using showInt_chars [of "CHR 0x0A" i] by (auto simp: isDigit_def)

lemma showInt_no_space: "ch \<in> set (showInt i) \<Longrightarrow> \<not> isSpace ch"
  using showInt_chars [of ch i] by (auto simp: isDigit_def isSpace_def)

lemma parseKey_createKey: "parseKey (createKey row col) = Some (row, col)"
proof -
  have "splitString (showInt row @ CHR '','' # showInt col) (CHR '','') = [showInt row, showInt col]"
    by (simp add: splitString_append splitString_none showInt_no_comma)
  then show ?thesis
    by (simp add: parseKey_def createKey_def parseInt_showInt)
qed

lemma createKey_inj: "createKey r c = createKey r' c' \<longleftrightarrow> r = r' \<and> c = c'"
proof
  assume "createKey r c = createKey r' c'"
  then have "parseKey (createKey r c) = parseKey (createKey r' c')" by simp
  then show "r = r' \<and> c = c'" by (simp add: parseKey_createKey)
qed simp

lemma keyInBounds_createKey:
  "keyInBounds R C (createKey r c) \<longleftrightarrow> 0 \<le> r \<and> r < R \<and> 0 \<le> c \<and> c < C"
  by (simp add: keyInBounds_def parseKey_createKey)

lemma keyInBoundsE:
  assumes "keyInBounds R C k"
  obtains r c where "k = createKey r c" "0 \<le> r" "r < R" "0 \<le> c" "c < C"
  using assms by (auto simp: keyInBounds_def split: option.splits)

lemma cell_newMatrix: "cell (newMatrix r c) i j = 0"
  by (simp add: cell_def newMatrix_def)

lemma getElement_cell:
  "getElement m row col =
     (if outOfBounds m row col then Inl (IndexOutOfBounds row col (rows m) (cols m))
      else Inr (cell m row col))"
  by (simp add: getElement_def cell_def split: option.splits)

lemma setElement_Inr_iff:
  "(\<exists>m'. setElement m row col v = Inr m') \<longleftrightarrow> \<not> outOfBounds m row col"
  by (auto simp: setElement_def Let_def)

lemma setElement_cases:
  assumes "setElement m row col v = Inr m'"
  obtains
    (removed) "v = 0" "map_of (elements m) (createKey row col) \<noteq> None"
      "elements m' = AList.delete (createKey row col) (elements m)"
      "elementCount m' = elementCount m - 1"
  | (absent) "v = 0" "map_of (elements m) (createKey row col) = None" "m' = m"
  | (inserted) "v \<noteq> 0" "map_of (elements m) (createKey row col) = None"
      "elements m' = AList.update (createKey row col) v (elements m)"
      "elementCount m' = elementCount m + 1"
  | (overwritten) "v \<noteq> 0" "map_of (elements m) (createKey row col) \<noteq> None"
      "elements m' = AList.update (createKey row col) v (elements m)"
      "elementCount m' = elementCount m"
proof (cases "v = 0"; cases "map_of (elements m) (createKey row col) = None")
  assume "v = 0" "map_of (elements m) (createKey row col) = None"
  then show ?thesis using assms absent by (simp add: setElement_def Let_def split: if_splits)
next
  assume "v = 0" "map_of (elements m) (createKey row col) \<noteq> None"
  then show ?thesis using assms removed by (simp add: setElement_def Let_def split: if_splits) force
next
  assume "v \<noteq> 0" "map_of (elements m) (createKey row col) = None"
  then show ?thesis using assms inserted by (simp add: setElement_def Let_def split: if_splits) force
next
  assume "v \<noteq> 0" "map_of (elements m) (createKey row col) \<noteq> None"
  then show ?thesis using assms overwritten by (simp add: setElement_def Let_def split: if_splits) force
qed

lemma setElement_dims:
  "setElement m row col v = Inr m' \<Longrightarrow> rows m' = rows m \<and> cols m' = cols m"
  by (auto simp: setElement_def Let_def split: if_splits)

lemma setElement_map_of:
  "setElement m row col v = Inr m' \<Longrightarrow>
   map_of (elements m') = (map_of (elements m))(createKey row col := (if v = 0 then None else Some v))"
  by (auto simp: setElement_def Let_def AList.update_conv' AList.delete_conv' split: if_splits)

lemma setElement_cell:
  assumes "setElement m row col v = Inr m'"
  shows "cell m' i j = (if i = row \<and> j = col then v else cell m i j)"
  using setElement_map_of [OF assms]
  by (auto simp: cell_def createKey_inj)

lemma setElement_distinct:
  "setElement m row col v = Inr m' \<Longrightarrow> distinct (map fst (elements m)) \<Longrightarrow>
   distinct (map fst (elements m'))"
  by (auto simp: setElement_def Let_def AList.distinct_update AList.distinct_delete split: if_splits)

lemma set_delete_subset: "set (AList.delete k al) \<subseteq> set al"
  by (auto simp: AList.delete_eq)

lemma set_update_subset: "set (AList.update k v al) \<subseteq> insert (k, v) (set al)"
  by (induction al) auto

lemma setElement_keys:
  assumes "setElement m row col v = Inr m'"
  shows "fst ` set (elements m') \<subseteq> insert (createKey row col) (fst ` set (elements m))"
  using assms
proof (cases rule: setElement_cases)
  case removed
  have "fst ` set (elements m') \<subseteq> fst ` set (elements m)"
    unfolding removed(3) by (rule AList.dom_delete_subset)
  then show ?thesis by (rule subset_trans) (rule subset_insertI)
next
  case absent
  show ?thesis unfolding absent(3) by (rule subset_insertI)
next
  case inserted
  show ?thesis unfolding inserted(3) by (simp add: AList.dom_update)
next
  case overwritten
  show ?thesis unfolding overwritten(3) by (simp add: AList.dom_update)
qed

lemma setElement_wellKeyed:
  assumes "setElement m row col v = Inr m'" and "wellKeyed m"
  shows "wellKeyed m'"
proof -
  have nb: "\<not> outOfBounds m row col"
    using assms(1) setElement_Inr_iff by blast
  then have kb: "keyInBounds (rows m) (cols m) (createKey row col)"
    by (auto simp: keyInBounds_createKey outOfBounds_def)
  have d: "rows m' = rows m" "cols m' = cols m"
    using setElement_dims [OF assms(1)] by simp_all
  have old: "\<forall>k \<in> fst ` set (elements m). keyInBounds (rows m) (cols m) k"
    using assms(2) by (auto simp: wellKeyed_def list_all_iff)
  have "\<forall>k \<in> fst ` set (elements m'). keyInBounds (rows m) (cols m) k"
  proof
    fix k assume "k \<in> fst ` set (elements m')"
    then have "k = createKey row col \<or> k \<in> fst ` set (elements m)"
      using setElement_keys [OF assms(1)] by blast
    then show "keyInBounds (rows m) (cols m) k"
      using kb old by blast
  qed
  then show ?thesis
    using setElement_distinct [OF assms(1)] assms(2) d
    by (auto simp: wellKeyed_def list_all_iff)
qed

lemma length_delete_distinct:
  "distinct (map fst al) \<Longrightarrow> map_of al k \<noteq> None \<Longrightarrow> int (length (AList.delete k al)) = int (length al) - 1"
proof (induction al)
  case Nil
  then show ?case by simp
next
  case (Cons p al)
  show ?case
  proof (cases "fst p = k")
    case True
    then have "k \<notin> fst ` set al" using Cons.prems(1) by auto
    then have "AList.delete k al = al" by (rule AList.delete_id)
    with True show ?thesis by (cases p) simp
  next
    case False
    then have "map_of al k \<noteq> None" using Cons.prems(2) by (cases p) (auto split: if_splits)
    then have "int (length (AList.delete k al)) = int (length al) - 1"
      using Cons.IH Cons.prems(1) by simp
    with False show ?thesis by (cases p) simp
  qed
qed

lemma length_update:
  "length (AList.update k v al) = (if map_of al k = None then length al + 1 else length al)"
  by (induction al) auto

lemma setElement_sparsityInvariant:
  assumes "setElement m row col v = Inr m'" and "sparsityInvariant m"
  shows "sparsityInvariant m'"
proof -
  have dist: "distinct (map fst (elements m))"
    and nz: "\<forall>kv \<in> set (elements m). snd kv \<noteq> 0"
    and cnt: "elementCount m = int (length (elements m))"
    using assms(2) by (simp_all add: sparsityInvariant_def list_all_iff)
  have dist': "distinct (map fst (elements m'))"
    using setElement_distinct [OF assms(1) dist] .
  from assms(1) show ?thesis
  proof (cases rule: setElement_cases)
    case removed
    have "\<forall>kv \<in> set (elements m'). snd kv \<noteq> 0"
      using nz removed(3) set_delete_subset [of "createKey row col" "elements m"] by auto
    moreover have "elementCount m' = int (length (elements m'))"
      using removed cnt length_delete_distinct [OF dist removed(2)] by simp
    ultimately show ?thesis using dist' by (simp add: sparsityInvariant_def list_all_iff)
  next
    case absent
    then show ?thesis using assms(2) by simp
  next
    case inserted
    have "\<forall>kv \<in> set (elements m'). snd kv \<noteq> 0"
      using nz inserted(1,3) set_update_subset [of "createKey row col" v "elements m"] by auto
    moreover have "elementCount m' = int (length (elements m'))"
      using inserted cnt by (simp add: length_update)
    ultimately show ?thesis using dist' by (simp add: sparsityInvariant_def list_all_iff)
  next
    case overwritten
    have "\<forall>kv \<in> set (elements m'). snd kv \<noteq> 0"
      using nz overwritten(1,3) set_update_subset [of "createKey row col" v "elements m"] by auto
    moreover have "elementCount m' = int (length (elements m'))"
      using overwritten cnt by (simp add: length_update)
    ultimately show ?thesis using dist' by (simp add: sparsityInvariant_def list_all_iff)
  qed
qed

subsection \<open>The two passes of \<^verbatim>\<open>loadFromFile\<close>\<close>

lemma foldl_max_ge: "(a::int) \<le> foldl max a xs"
proof (induction xs arbitrary: a)
  case Nil
  show ?case by simp
next
  case (Cons x xs)
  have "a \<le> max a x" by simp
  also have "\<dots> \<le> foldl max (max a x) xs" by (rule Cons.IH)
  finally show ?case by simp
qed

lemma foldl_max_mem: "x \<in> set xs \<Longrightarrow> (x::int) \<le> foldl max a xs"
proof (induction xs arbitrary: a)
  case Nil
  then show ?case by simp
next
  case (Cons y ys)
  show ?case
  proof (cases "x = y")
    case True
    have "x \<le> max a y" using True by simp
    also have "\<dots> \<le> foldl max (max a y) ys" by (rule foldl_max_ge)
    finally show ?thesis by simp
  next
    case False
    then have "x \<in> set ys" using Cons.prems by simp
    then show ?thesis using Cons.IH by simp
  qed
qed

lemma foldl_max_Max: "foldl max (a::int) xs = Max (insert a (set xs))"
proof (induction xs arbitrary: a)
  case Nil
  show ?case by simp
next
  case (Cons x xs)
  have "foldl max a (x # xs) = Max (insert (max a x) (set xs))"
    using Cons.IH by simp
  also have "\<dots> = Max (insert a (insert x (set xs)))"
  proof (cases "set xs = {}")
    case True
    then show ?thesis by (simp add: max.commute)
  next
    case False
    then show ?thesis by (simp add: max.assoc)
  qed
  finally show ?case by simp
qed

lemma firstPass_Some:
  "those (map parseElementLine ls) = Some es \<Longrightarrow>
   firstPass i ls maxRow maxCol acc =
     Inr (foldl max maxRow (map fst es), foldl max maxCol (map (\<lambda>e. fst (snd e)) es), acc @ es)"
proof (induction ls arbitrary: i maxRow maxCol acc es)
  case Nil
  then show ?case by simp
next
  case (Cons l ls)
  from Cons.prems obtain e es' where e: "parseElementLine l = Some e"
    and es': "those (map parseElementLine ls) = Some es'" and es: "es = e # es'"
    by (auto split: option.splits)
  obtain row col v where rcv: "e = (row, col, v)" by (cases e) auto
  show ?case
    using Cons.IH [OF es'] e es rcv by simp
qed

lemma firstPass_None:
  "those (map parseElementLine ls) = None \<Longrightarrow>
   \<exists>j l. firstPass i ls maxRow maxCol acc = Inl (WrongFormatAtLine j l)"
proof (induction ls arbitrary: i maxRow maxCol acc)
  case Nil
  then show ?case by simp
next
  case (Cons l ls)
  show ?case
  proof (cases "parseElementLine l")
    case None
    then show ?thesis by simp
  next
    case (Some e)
    then have "those (map parseElementLine ls) = None"
      using Cons.prems by (auto split: option.splits)
    from Cons.IH [OF this] Some show ?thesis
      by (cases e) auto
  qed
qed

lemma secondPass_error:
  "secondPass m es = Inl e \<Longrightarrow> \<not> includesWrongFormat e"
proof (induction es arbitrary: m)
  case Nil
  then show ?case by simp
next
  case (Cons x es)
  obtain row col v where x: "x = (row, col, v)" by (cases x) auto
  show ?case
  proof (cases "v = 0")
    case True
    then show ?thesis using Cons x by simp
  next
    case False
    show ?thesis
    proof (cases "setElement m row col v")
      case (Inl e')
      then have "e' = IndexOutOfBounds row col (rows m) (cols m)"
        by (auto simp: setElement_def Let_def split: if_splits)
      then show ?thesis using Cons.prems x False Inl by auto
    next
      case (Inr m')
      then show ?thesis using Cons x False by simp
    qed
  qed
qed

lemma loadFromFile_parts:
  "loadFromFile data =
     (case documentParts data of
        None \<Rightarrow> Inl WrongFormat
      | Some (r, c, es) \<Rightarrow>
          secondPass (newMatrix (fst (finalDims r c es)) (snd (finalDims r c es))) es)"
proof -
  let ?vl = "validLinesOf data"
  show ?thesis
  proof (cases "length ?vl < 3 \<or> \<not> startsWith (?vl ! 0) ''rows='' \<or> \<not> startsWith (?vl ! 1) ''cols=''")
    case True
    then show ?thesis
      by (auto simp: loadFromFile_def loadBody_def documentParts_def Let_def)
  next
    case hdr: False
    show ?thesis
    proof (cases "parseInt (drop 5 (?vl ! 0))")
      case None
      then show ?thesis using hdr
        by (simp add: loadFromFile_def loadBody_def documentParts_def Let_def)
    next
      case r: (Some r)
      show ?thesis
      proof (cases "parseInt (drop 5 (?vl ! 1))")
        case None
        then show ?thesis using hdr r
          by (simp add: loadFromFile_def loadBody_def documentParts_def Let_def)
      next
        case c: (Some c)
        show ?thesis
        proof (cases "r \<le> 0 \<or> c \<le> 0")
          case True
          then show ?thesis using hdr r c
            by (auto simp: loadFromFile_def loadBody_def documentParts_def Let_def
                split: option.splits)
        next
          case pos: False
          show ?thesis
          proof (cases "those (map parseElementLine (drop 2 ?vl))")
            case None
            from firstPass_None [OF this, of 2 0 0 "[]"] obtain j l where
              "firstPass 2 (drop 2 ?vl) 0 0 [] = Inl (WrongFormatAtLine j l)" by blast
            then show ?thesis using hdr r c pos None
              by (simp add: loadFromFile_def loadBody_def documentParts_def Let_def)
          next
            case (Some es)
            have fp: "firstPass 2 (drop 2 ?vl) 0 0 [] =
                Inr (foldl max 0 (map fst es), foldl max 0 (map (\<lambda>e. fst (snd e)) es), es)"
              using firstPass_Some [OF Some, of 2 0 0 "[]"] by simp
            have body: "loadBody data =
                secondPass (newMatrix (fst (finalDims r c es)) (snd (finalDims r c es))) es"
              using hdr r c pos fp
              by (simp add: loadBody_def finalDims_def Let_def)
            have parts: "documentParts data = Some (r, c, es)"
              using hdr r c pos Some by (simp add: documentParts_def Let_def)
            show ?thesis
              using body parts secondPass_error [of _ es]
              by (auto simp: loadFromFile_def split: sum.splits)
          qed
        qed
      qed
    qed
  qed
qed

lemma secondPass_dims:
  "secondPass m es = Inr m' \<Longrightarrow> rows m' = rows m \<and> cols m' = cols m"
proof (induction es arbitrary: m)
  case Nil
  then show ?case by simp
next
  case (Cons x es)
  obtain row col v where x: "x = (row, col, v)" by (cases x) auto
  show ?case
  proof (cases "v = 0")
    case True
    then show ?thesis using Cons x by simp
  next
    case False
    then obtain m1 where m1: "setElement m row col v = Inr m1" and r: "secondPass m1 es = Inr m'"
      using Cons.prems x by (auto split: sum.splits)
    show ?thesis
      using Cons.IH [OF r] setElement_dims [OF m1] by simp
  qed
qed

lemma secondPass_invariants:
  "secondPass m es = Inr m' \<Longrightarrow> wellKeyed m \<Longrightarrow> sparsityInvariant m \<Longrightarrow>
   wellKeyed m' \<and> sparsityInvariant m'"
proof (induction es arbitrary: m)
  case Nil
  then show ?case by simp
next
  case (Cons x es)
  obtain row col v where x: "x = (row, col, v)" by (cases x) auto
  show ?case
  proof (cases "v = 0")
    case True
    then show ?thesis using Cons x by simp
  next
    case False
    then obtain m1 where m1: "setElement m row col v = Inr m1" and r: "secondPass m1 es = Inr m'"
      using Cons.prems x by (auto split: sum.splits)
    have "wellKeyed m1" using setElement_wellKeyed [OF m1 Cons.prems(2)] .
    moreover have "sparsityInvariant m1"
      using setElement_sparsityInvariant [OF m1 Cons.prems(3)] .
    ultimately show ?thesis using Cons.IH [OF r] by simp
  qed
qed

lemma secondPass_succeeds:
  "list_all (\<lambda>(row, col, v). v = 0 \<or> \<not> outOfBounds m row col) es \<Longrightarrow>
   \<exists>m'. secondPass m es = Inr m'"
proof (induction es arbitrary: m)
  case Nil
  then show ?case by simp
next
  case (Cons x es)
  obtain row col v where x: "x = (row, col, v)" by (cases x) auto
  show ?case
  proof (cases "v = 0")
    case True
    then show ?thesis using Cons x by simp
  next
    case False
    then have "\<not> outOfBounds m row col" using Cons.prems x by simp
    then obtain m1 where m1: "setElement m row col v = Inr m1"
      using setElement_Inr_iff by blast
    have ob: "outOfBounds m1 = outOfBounds m"
      using setElement_dims [OF m1] by (simp add: outOfBounds_def fun_eq_iff)
    have "list_all (\<lambda>(row, col, v). v = 0 \<or> \<not> outOfBounds m1 row col) es"
      using Cons.prems ob by simp
    from Cons.IH [OF this] show ?thesis using m1 x False by simp
  qed
qed

lemma secondPass_fails:
  "find (\<lambda>(row, col, v). v \<noteq> 0 \<and> outOfBounds m row col) es = Some (row, col, v) \<Longrightarrow>
   secondPass m es = Inl (IndexOutOfBounds row col (rows m) (cols m))"
proof (induction es arbitrary: m)
  case Nil
  then show ?case by simp
next
  case (Cons x es)
  obtain row' col' v' where x: "x = (row', col', v')" by (cases x) auto
  show ?case
  proof (cases "v' \<noteq> 0 \<and> outOfBounds m row' col'")
    case True
    then have "(row, col, v) = (row', col', v')" using Cons.prems x by simp
    then show ?thesis using True x by (simp add: setElement_def)
  next
    case False
    then have f: "find (\<lambda>(row, col, v). v \<noteq> 0 \<and> outOfBounds m row col) es = Some (row, col, v)"
      using Cons.prems x by (auto split: if_splits)
    show ?thesis
    proof (cases "v' = 0")
      case True
      then show ?thesis using Cons.IH [OF f] x by simp
    next
      case nz: False
      then have "\<not> outOfBounds m row' col'" using False by simp
      then obtain m1 where m1: "setElement m row' col' v' = Inr m1"
        using setElement_Inr_iff by blast
      have d: "rows m1 = rows m" "cols m1 = cols m"
        using setElement_dims [OF m1] by simp_all
      have ob: "outOfBounds m1 = outOfBounds m"
        using d by (simp add: outOfBounds_def fun_eq_iff)
      have "secondPass m1 es = Inl (IndexOutOfBounds row col (rows m1) (cols m1))"
        using Cons.IH [of m1] f ob by simp
      then show ?thesis using m1 x nz d by simp
    qed
  qed
qed

lemma roundToDouble_exact: "\<bar>x\<bar> \<le> 2 ^ 53 \<Longrightarrow> roundToDouble x = x"
  by (simp add: roundToDouble_def)

lemma foldl_max_below:
  assumes "a < b" and "\<forall>x \<in> set xs. x < b"
  shows "foldl max a xs < (b :: int)"
  using assms by (simp add: foldl_max_Max)

lemma safeDocument_coordinates:
  "safeDocument r c es \<Longrightarrow> list_all (\<lambda>e. fst e < 2 ^ 53 \<and> fst (snd e) < 2 ^ 53) es"
  by (auto simp: safeDocument_def safeInteger_def list_all_iff)

text \<open>With coordinates below \<open>2^53\<close> the new dimensions are computed exactly.\<close>

lemma finalDims_exact:
  assumes "list_all (\<lambda>e. fst e < 2 ^ 53 \<and> fst (snd e) < 2 ^ 53) es"
  shows "finalDims r c es =
     (let maxRow = foldl max 0 (map fst es);
          maxCol = foldl max 0 (map (\<lambda>e. fst (snd e)) es)
      in if maxRow \<ge> r \<or> maxCol \<ge> c then (maxRow + 1, maxCol + 1) else (r, c))"
proof -
  have "foldl max 0 (map fst es) < 2 ^ 53"
    using assms by (intro foldl_max_below) (auto simp: list_all_iff)
  then have r: "roundToDouble (foldl max 0 (map fst es) + 1) = foldl max 0 (map fst es) + 1"
    using foldl_max_ge [of 0 "map fst es"] by (intro roundToDouble_exact) simp
  have "foldl max 0 (map (\<lambda>e. fst (snd e)) es) < 2 ^ 53"
    using assms by (intro foldl_max_below) (auto simp: list_all_iff)
  then have c: "roundToDouble (foldl max 0 (map (\<lambda>e. fst (snd e)) es) + 1)
      = foldl max 0 (map (\<lambda>e. fst (snd e)) es) + 1"
    using foldl_max_ge [of 0 "map (\<lambda>e. fst (snd e)) es"] by (intro roundToDouble_exact) simp
  show ?thesis by (simp add: finalDims_def Let_def r c)
qed

lemma finalDims_bound:
  assumes "(row, col, v) \<in> set es"
    and "list_all (\<lambda>e. fst e < 2 ^ 53 \<and> fst (snd e) < 2 ^ 53) es"
  shows "row < fst (finalDims r c es) \<and> col < snd (finalDims r c es)"
proof -
  have "row \<le> foldl max 0 (map fst es)"
    using assms(1) by (intro foldl_max_mem) force
  moreover have "col \<le> foldl max 0 (map (\<lambda>e. fst (snd e)) es)"
    using assms(1) by (intro foldl_max_mem) force
  ultimately show ?thesis
    by (auto simp: finalDims_exact [OF assms(2)] Let_def)
qed

lemma finalDims_positive:
  assumes "0 < r" and "0 < c"
    and "list_all (\<lambda>e. fst e < 2 ^ 53 \<and> fst (snd e) < 2 ^ 53) es"
  shows "0 < fst (finalDims r c es) \<and> 0 < snd (finalDims r c es)"
  using assms(1,2) foldl_max_ge [of 0 "map fst es"]
    foldl_max_ge [of 0 "map (\<lambda>e. fst (snd e)) es"]
  by (auto simp: finalDims_exact [OF assms(3)] Let_def)

lemma outOfBounds_final:
  assumes "(row, col, v) \<in> set es"
    and "list_all (\<lambda>e. fst e < 2 ^ 53 \<and> fst (snd e) < 2 ^ 53) es"
  shows "outOfBounds (newMatrix (fst (finalDims r c es)) (snd (finalDims r c es))) row col
         \<longleftrightarrow> row < 0 \<or> col < 0"
  using finalDims_bound [OF assms, of r c]
  by (auto simp: outOfBounds_def newMatrix_def)

lemma those_length: "those xs = Some ys \<Longrightarrow> length ys = length xs"
  by (induction xs arbitrary: ys) (auto split: option.splits)

lemma documentParts_positive:
  assumes "documentParts data = Some (r, c, es)"
  shows "0 < r \<and> 0 < c \<and> es \<noteq> []"
proof -
  have len: "\<not> length (validLinesOf data) < 3"
    and th: "those (map parseElementLine (drop 2 (validLinesOf data))) = Some es"
    and pos: "0 < r \<and> 0 < c"
    using assms by (auto simp: documentParts_def Let_def split: if_splits option.splits)
  have "length es = length (validLinesOf data) - 2"
    using those_length [OF th] by simp
  then have "es \<noteq> []" using len by auto
  then show ?thesis using pos by simp
qed

lemma wellKeyed_newMatrix: "wellKeyed (newMatrix r c)"
  by (simp add: wellKeyed_def newMatrix_def)

lemma sparsityInvariant_newMatrix: "sparsityInvariant (newMatrix r c)"
  by (simp add: sparsityInvariant_def newMatrix_def)

lemma loadFromFile_Inr:
  assumes "loadFromFile data = Inr m"
  obtains r c es where "documentParts data = Some (r, c, es)"
    and "secondPass (newMatrix (fst (finalDims r c es)) (snd (finalDims r c es))) es = Inr m"
  using assms unfolding loadFromFile_parts by (auto split: option.splits)

lemma loadFromFile_invariants:
  assumes "loadFromFile data = Inr m"
  shows "wellKeyed m \<and> sparsityInvariant m"
proof -
  from assms obtain r c es where
    "secondPass (newMatrix (fst (finalDims r c es)) (snd (finalDims r c es))) es = Inr m"
    by (rule loadFromFile_Inr)
  from secondPass_invariants [OF this wellKeyed_newMatrix sparsityInvariant_newMatrix]
  show ?thesis .
qed

lemma loadFromFile_dims:
  assumes "documentParts data = Some (r, c, es)" and "loadFromFile data = Inr m"
  shows "(rows m, cols m) = finalDims r c es"
proof -
  have "secondPass (newMatrix (fst (finalDims r c es)) (snd (finalDims r c es))) es = Inr m"
    using assms by (simp add: loadFromFile_parts)
  from secondPass_dims [OF this] show ?thesis by (simp add: newMatrix_def)
qed

subsection \<open>Dimensions and bounds\<close>

lemma secondPass_error_entry:
  "secondPass m es = Inl e \<Longrightarrow>
   \<exists>row col v. (row, col, v) \<in> set es \<and> outOfBounds m row col \<and>
     e = IndexOutOfBounds row col (rows m) (cols m)"
proof (induction es arbitrary: m)
  case Nil
  then show ?case by simp
next
  case (Cons x es)
  obtain row col v where x: "x = (row, col, v)" by (cases x) auto
  show ?case
  proof (cases "v = 0")
    case True
    then have "secondPass m es = Inl e" using Cons.prems x by simp
    from Cons.IH [OF this] show ?thesis by auto
  next
    case False
    show ?thesis
    proof (cases "outOfBounds m row col")
      case True
      then have "e = IndexOutOfBounds row col (rows m) (cols m)"
        using Cons.prems x False by (simp add: setElement_def)
      then show ?thesis using True x by auto
    next
      case nb: False
      then obtain m1 where m1: "setElement m row col v = Inr m1"
        using setElement_Inr_iff by blast
      have d: "rows m1 = rows m" "cols m1 = cols m"
        using setElement_dims [OF m1] by simp_all
      have "secondPass m1 es = Inl e" using Cons.prems x False m1 by simp
      from Cons.IH [OF this] show ?thesis
        using d by (auto simp: outOfBounds_def)
    qed
  qed
qed

lemma Max_insert_zero:
  assumes "xs \<noteq> []" and "\<forall>x \<in> set xs. (0::int) \<le> x"
  shows "Max (insert 0 (set xs)) = Max (set xs)"
proof -
  have ne: "set xs \<noteq> {}" using assms(1) by simp
  have "Max (set xs) \<in> set xs" using ne by (intro Max_in) simp_all
  then have "0 \<le> Max (set xs)" using assms(2) by blast
  then show ?thesis using ne by simp
qed

text \<open>
  C3 (amended).  For a valid document whose numbers are safe integers, with declared
  dimensions \<open>r\<close>, \<open>c\<close> and parsed entries \<open>es\<close> (zero-valued entries included): a
  successful load has the dimensions \<open>(maxRow + 1) \<times> (maxCol + 1)\<close> if \<open>maxRow \<ge> r\<close> or
  \<open>maxCol \<ge> c\<close>, and \<open>r \<times> c\<close> otherwise, where \<open>maxRow\<close> and \<open>maxCol\<close> are the maxima of
  \<open>0\<close> and the row and column coordinates.  When no coordinate is negative the load
  succeeds, whatever the declared dimensions, and the maxima are those of the coordinates
  alone; an out-of-bounds error of a load always names an entry with a negative
  coordinate.
\<close>

theorem C3_dimension_reconciliation:
  assumes "documentParts doc = Some (r, c, es)" and "safeDocument r c es"
  shows "(loadFromFile doc = Inr m \<longrightarrow>
            (rows m, cols m) =
              (let maxRow = Max (insert 0 (set (map fst es)));
                   maxCol = Max (insert 0 (set (map (\<lambda>e. fst (snd e)) es)))
               in if maxRow \<ge> r \<or> maxCol \<ge> c then (maxRow + 1, maxCol + 1) else (r, c)))
       \<and> (list_all (\<lambda>(row, col, v). 0 \<le> row \<and> 0 \<le> col) es \<longrightarrow>
            (\<exists>m'. loadFromFile doc = Inr m' \<and> (rows m', cols m') = spec_finalDims r c es))
       \<and> (loadFromFile doc = Inl (IndexOutOfBounds row col R C) \<longrightarrow> row < 0 \<or> col < 0)"
proof -
  let ?M = "newMatrix (fst (finalDims r c es)) (snd (finalDims r c es))"
  note below = safeDocument_coordinates [OF assms(2)]
  have load: "loadFromFile doc = secondPass ?M es"
    using assms(1) by (simp add: loadFromFile_parts)
  have fd: "finalDims r c es =
      (let maxRow = Max (insert 0 (set (map fst es)));
           maxCol = Max (insert 0 (set (map (\<lambda>e. fst (snd e)) es)))
       in if maxRow \<ge> r \<or> maxCol \<ge> c then (maxRow + 1, maxCol + 1) else (r, c))"
    by (simp add: finalDims_exact [OF below] foldl_max_Max)
  have dims: "(rows m', cols m') = finalDims r c es" if "loadFromFile doc = Inr m'" for m'
    using loadFromFile_dims [OF assms(1) that] .
  have part1: "loadFromFile doc = Inr m \<longrightarrow>
            (rows m, cols m) =
              (let maxRow = Max (insert 0 (set (map fst es)));
                   maxCol = Max (insert 0 (set (map (\<lambda>e. fst (snd e)) es)))
               in if maxRow \<ge> r \<or> maxCol \<ge> c then (maxRow + 1, maxCol + 1) else (r, c))"
    using dims [of m] fd by simp
  have part2: "\<exists>m'. loadFromFile doc = Inr m' \<and> (rows m', cols m') = spec_finalDims r c es"
    if nn: "list_all (\<lambda>(row, col, v). 0 \<le> row \<and> 0 \<le> col) es"
  proof -
    have "list_all (\<lambda>(row, col, v). v = 0 \<or> \<not> outOfBounds ?M row col) es"
      unfolding list_all_iff
    proof
      fix e assume e: "e \<in> set es"
      obtain row col v where rcv: "e = (row, col, v)" by (cases e) auto
      have "0 \<le> row \<and> 0 \<le> col" using nn e rcv by (auto simp: list_all_iff)
      then have "\<not> outOfBounds ?M row col"
        using outOfBounds_final [of row col v es r c] below e rcv by simp
      then show "case e of (row, col, v) \<Rightarrow> v = 0 \<or> \<not> outOfBounds ?M row col"
        using rcv by simp
    qed
    from secondPass_succeeds [OF this] obtain m' where m': "loadFromFile doc = Inr m'"
      using load by auto
    have ne: "es \<noteq> []" using documentParts_positive [OF assms(1)] by simp
    have r0: "\<forall>x \<in> set (map fst es). 0 \<le> x"
      using nn by (auto simp: list_all_iff)
    have c0: "\<forall>x \<in> set (map (\<lambda>e. fst (snd e)) es). 0 \<le> x"
      using nn by (auto simp: list_all_iff)
    have "Max (insert 0 (set (map fst es))) = Max (set (map fst es))"
      using ne r0 by (intro Max_insert_zero) simp_all
    moreover have "Max (insert 0 (set (map (\<lambda>e. fst (snd e)) es)))
        = Max (set (map (\<lambda>e. fst (snd e)) es))"
      using ne c0 by (intro Max_insert_zero) simp_all
    ultimately have "finalDims r c es = spec_finalDims r c es"
      unfolding fd spec_finalDims_def by simp
    then show ?thesis using m' dims [OF m'] by auto
  qed
  have part3: "loadFromFile doc = Inl (IndexOutOfBounds row col R C) \<longrightarrow> row < 0 \<or> col < 0"
  proof
    assume "loadFromFile doc = Inl (IndexOutOfBounds row col R C)"
    then have "secondPass ?M es = Inl (IndexOutOfBounds row col R C)" using load by simp
    from secondPass_error_entry [OF this] obtain v where "(row, col, v) \<in> set es"
      "outOfBounds ?M row col" by auto
    then show "row < 0 \<or> col < 0"
      using outOfBounds_final [of row col v es r c] below by simp
  qed
  show ?thesis using part1 part2 part3 by blast
qed

theorem C3_dimension_reconciliation_witness:
  "documentParts ''rows=3\<newline>cols=3\<newline>(1, 4, 9)\<newline>(0, 0, 0)'' = Some (3, 3, [(1, 4, 9), (0, 0, 0)])
   \<and> safeDocument 3 3 [(1, 4, 9), (0, 0, 0)]
   \<and> list_all (\<lambda>(row, col, v). 0 \<le> row \<and> 0 \<le> col) ([(1, 4, 9), (0, 0, 0)] :: (int \<times> int \<times> int) list)
   \<and> (\<exists>m'. loadFromFile ''rows=3\<newline>cols=3\<newline>(1, 4, 9)\<newline>(0, 0, 0)'' = Inr m'
          \<and> (rows m', cols m') = (2, 5))"
proof -
  have h: "documentParts ''rows=3\<newline>cols=3\<newline>(1, 4, 9)\<newline>(0, 0, 0)''
      = Some (3, 3, [(1, 4, 9), (0, 0, 0)])"
    by code_simp
  have sf: "safeDocument 3 3 [(1, 4, 9), (0, 0, 0)]"
    by (simp add: safeDocument_def safeInteger_def)
  have nn: "list_all (\<lambda>(row, col, v). 0 \<le> row \<and> 0 \<le> col) ([(1, 4, 9), (0, 0, 0)] :: (int \<times> int \<times> int) list)"
    by simp
  have s: "spec_finalDims 3 3 [(1, 4, 9), (0, 0, 0)] = (2, 5)"
    by code_simp
  from C3_dimension_reconciliation [OF h sf] nn
  have "\<exists>m'. loadFromFile ''rows=3\<newline>cols=3\<newline>(1, 4, 9)\<newline>(0, 0, 0)'' = Inr m'
      \<and> (rows m', cols m') = spec_finalDims 3 3 [(1, 4, 9), (0, 0, 0)]"
    by blast
  then show ?thesis using h sf nn s by simp
qed

text \<open>
  Two documents outside the amended claim.  A zero-valued entry with a negative row does
  not lower the maximum, which starts at \<open>0\<close>: the load gives \<open>1 \<times> 6\<close>, not \<open>0 \<times> 6\<close>.  A row
  of \<open>2^53\<close> makes the new row count \<open>2^53 + 1\<close>, which is rounded to \<open>2^53\<close>, and the
  entry is refused as out of bounds although its coordinates are not negative.
\<close>

theorem C3_maxima_counterexample:
  "documentParts ''rows=2\<newline>cols=2\<newline>(-1, 5, 0)'' = Some (2, 2, [(-1, 5, 0)])
   \<and> loadFromFile ''rows=2\<newline>cols=2\<newline>(-1, 5, 0)''
       = Inr \<lparr>rows = 1, cols = 6, elements = [], elementCount = 0\<rparr>
   \<and> spec_finalDims 2 2 [(-1, 5, 0)] = (0, 6)
   \<and> documentParts ''rows=2\<newline>cols=2\<newline>(9007199254740992, 0, 1)''
       = Some (2, 2, [(9007199254740992, 0, 1)])
   \<and> loadFromFile ''rows=2\<newline>cols=2\<newline>(9007199254740992, 0, 1)''
       = Inl (IndexOutOfBounds 9007199254740992 0 9007199254740992 1)"
  by code_simp

text \<open>
  C2 (amended).  Loading the document that declares \<open>rows=2\<close> and \<open>cols=2\<close> and has the
  single entry line \<open>(5, 0, 7)\<close> gives a matrix with \<open>rows = 6\<close> and \<open>cols = 1\<close>: both
  dimensions are set from the observed maxima.  \<open>getElement(5, 0)\<close> is \<open>7\<close>.
\<close>

theorem C2_growth_example:
  "\<exists>m. loadFromFile ''rows=2\<newline>cols=2\<newline>(5, 0, 7)'' = Inr m
       \<and> rows m = 6 \<and> cols m = 1 \<and> getElement m 5 0 = Inr 7"
proof -
  have "loadFromFile ''rows=2\<newline>cols=2\<newline>(5, 0, 7)''
      = Inr \<lparr>rows = 6, cols = 1, elements = [(''5,0'', 7)], elementCount = 1\<rparr>"
    by code_simp
  moreover have
    "getElement \<lparr>rows = 6, cols = 1, elements = [(''5,0'', 7)], elementCount = 1\<rparr> 5 0 = Inr 7"
    by code_simp
  ultimately show ?thesis by simp
qed

theorem C2_cols_counterexample:
  "loadFromFile ''rows=2\<newline>cols=2\<newline>(5, 0, 7)''
     = Inr \<lparr>rows = 6, cols = 1, elements = [(''5,0'', 7)], elementCount = 1\<rparr>
   \<and> cols \<lparr>rows = 6, cols = 1, elements = [(''5,0'', 7)], elementCount = 1\<rparr> \<noteq> 2"
  by code_simp

text \<open>
  C8.  \<open>getElement\<close> and \<open>setElement\<close> fail exactly when \<open>row < 0\<close>, \<open>col < 0\<close>,
  \<open>row \<ge> rows\<close> or \<open>col \<ge> cols\<close>, and then with the out-of-bounds error; in bounds,
  \<open>getElement\<close> returns the stored value, or \<open>0\<close> when the coordinate has no entry.  It
  returns a value only: the matrix is not changed.  On a \<open>2 \<times> 2\<close> matrix
  \<open>getElement(2, 0)\<close> fails.
\<close>

theorem C8_bounds_checks:
  "((\<exists>e. getElement m row col = Inl e) \<longleftrightarrow> row < 0 \<or> col < 0 \<or> row \<ge> rows m \<or> col \<ge> cols m)
   \<and> ((\<exists>e. setElement m row col v = Inl e) \<longleftrightarrow> row < 0 \<or> col < 0 \<or> row \<ge> rows m \<or> col \<ge> cols m)
   \<and> (getElement m row col = Inl e \<longrightarrow> e = IndexOutOfBounds row col (rows m) (cols m))
   \<and> (setElement m row col v = Inl e \<longrightarrow> e = IndexOutOfBounds row col (rows m) (cols m))
   \<and> (\<not> (row < 0 \<or> col < 0 \<or> row \<ge> rows m \<or> col \<ge> cols m) \<longrightarrow>
        getElement m row col =
          Inr (case map_of (elements m) (createKey row col) of Some x \<Rightarrow> x | None \<Rightarrow> 0))
   \<and> (rows m = 2 \<and> cols m = 2 \<longrightarrow> getElement m 2 0 = Inl (IndexOutOfBounds 2 0 2 2))"
proof -
  have ob: "outOfBounds m row col \<longleftrightarrow> row < 0 \<or> col < 0 \<or> row \<ge> rows m \<or> col \<ge> cols m"
    by (auto simp: outOfBounds_def)
  have g1: "(\<exists>e. getElement m row col = Inl e) \<longleftrightarrow> outOfBounds m row col"
    by (simp add: getElement_cell)
  have s1: "(\<exists>e. setElement m row col v = Inl e) \<longleftrightarrow> outOfBounds m row col"
    by (simp add: setElement_def Let_def)
  have g2: "getElement m row col = Inl e \<longrightarrow> e = IndexOutOfBounds row col (rows m) (cols m)"
    by (auto simp: getElement_cell split: if_splits)
  have s2: "setElement m row col v = Inl e \<longrightarrow> e = IndexOutOfBounds row col (rows m) (cols m)"
    by (simp add: setElement_def Let_def split: if_splits)
  have g3: "\<not> outOfBounds m row col \<longrightarrow>
        getElement m row col =
          Inr (case map_of (elements m) (createKey row col) of Some x \<Rightarrow> x | None \<Rightarrow> 0)"
    by (simp add: getElement_cell cell_def)
  have g4: "rows m = 2 \<and> cols m = 2 \<longrightarrow> getElement m 2 0 = Inl (IndexOutOfBounds 2 0 2 2)"
    by (simp add: getElement_cell outOfBounds_def)
  show ?thesis using g1 s1 g2 s2 g3 g4 unfolding ob by blast
qed

theorem C8_bounds_checks_witness:
  "getElement \<lparr>rows = 2, cols = 2, elements = [(''1,1'', 4)], elementCount = 1\<rparr> 2 0
     = Inl (IndexOutOfBounds 2 0 2 2)
   \<and> getElement \<lparr>rows = 2, cols = 2, elements = [(''1,1'', 4)], elementCount = 1\<rparr> 1 1 = Inr 4
   \<and> getElement \<lparr>rows = 2, cols = 2, elements = [(''1,1'', 4)], elementCount = 1\<rparr> 0 1 = Inr 0
   \<and> setElement \<lparr>rows = 2, cols = 2, elements = [(''1,1'', 4)], elementCount = 1\<rparr> 0 (- 1) 3
     = Inl (IndexOutOfBounds 0 (- 1) 2 2)"
proof -
  let ?m = "\<lparr>rows = 2, cols = 2, elements = [(''1,1'', 4)], elementCount = 1\<rparr>"
  have k11: "createKey 1 1 = ''1,1''" and k01: "createKey 0 1 = ''0,1''" by code_simp+
  have a: "getElement ?m 2 0 = Inl (IndexOutOfBounds 2 0 2 2)"
    using C8_bounds_checks [of ?m 2 0 0 InsufficientData] by simp
  have b: "getElement ?m 1 1 = Inr 4"
    using C8_bounds_checks [of ?m 1 1 0 InsufficientData] k11 by simp
  have c: "getElement ?m 0 1 = Inr 0"
    using C8_bounds_checks [of ?m 0 1 0 InsufficientData] k01 by simp
  obtain e where e: "setElement ?m 0 (- 1) 3 = Inl e"
    using C8_bounds_checks [of ?m 0 "- 1" 3 InsufficientData] by auto
  then have "e = IndexOutOfBounds 0 (- 1) 2 2"
    using C8_bounds_checks [of ?m 0 "- 1" 3 e] by simp
  with a b c e show ?thesis by simp
qed

subsection \<open>Malformed lines and negative coordinates\<close>

lemma parseDigits_nondigit: "ch \<in> set s \<Longrightarrow> \<not> isDigit ch \<Longrightarrow> parseDigits acc s = None"
  by (induction s arbitrary: acc) auto

lemma those_Some_all: "those (map f xs) = Some ys \<Longrightarrow> x \<in> set xs \<Longrightarrow> f x \<noteq> None"
  by (induction xs arbitrary: ys) (auto split: option.splits)

lemma documentParts_lines:
  assumes "documentParts doc = Some (r, c, es)"
  shows "those (map parseElementLine (drop 2 (validLinesOf doc))) = Some es"
  using assms by (auto simp: documentParts_def Let_def split: if_splits option.splits)

lemma malformed_line_aborts:
  assumes "line \<in> set (drop 2 (validLinesOf doc))" and "parseElementLine line = None"
  shows "loadFromFile doc = Inl WrongFormat"
proof (cases "documentParts doc")
  case None
  then show ?thesis by (simp add: loadFromFile_parts)
next
  case (Some p)
  obtain r c es where "p = (r, c, es)" by (cases p) auto
  with Some have "those (map parseElementLine (drop 2 (validLinesOf doc))) = Some es"
    using documentParts_lines by simp
  from those_Some_all [OF this assms(1)] assms(2) show ?thesis by simp
qed

text \<open>
  C7.  The document \<open>rows=2\<close>, \<open>cols=2\<close>, \<open>(1,1,x)\<close> is refused with the uniform
  wrong-format error, and no matrix is returned.  In general: a token with a character
  that is not a digit (a leading minus sign apart) does not parse; an entry line one of
  whose three tokens does not parse is refused; and a document with a refused entry line is
  refused as a whole with the uniform wrong-format error.
\<close>

theorem C7_malformed_entry_aborts:
  "loadFromFile ''rows=2\<newline>cols=2\<newline>(1,1,x)'' = Inl WrongFormat
   \<and> (ch \<in> set (case tok of [] \<Rightarrow> [] | c # cs \<Rightarrow> if c = CHR ''-'' then cs else tok)
        \<and> \<not> isDigit ch \<longrightarrow> parseInt tok = None)
   \<and> (splitString (substring line 1 (length line - 1)) (CHR '','') = [p0, p1, p2]
        \<and> (parseInt (trim p0) = None \<or> parseInt (trim p1) = None \<or> parseInt (trim p2) = None)
        \<longrightarrow> parseElementLine line = None)
   \<and> (line \<in> set (drop 2 (validLinesOf doc)) \<and> parseElementLine line = None
        \<longrightarrow> loadFromFile doc = Inl WrongFormat)"
proof -
  have a: "loadFromFile ''rows=2\<newline>cols=2\<newline>(1,1,x)'' = Inl WrongFormat"
    by code_simp
  have b: "ch \<in> set (case tok of [] \<Rightarrow> [] | c # cs \<Rightarrow> if c = CHR ''-'' then cs else tok)
        \<and> \<not> isDigit ch \<longrightarrow> parseInt tok = None"
    by (cases tok) (auto simp: parseInt_def parseDigits_nondigit split: if_splits)
  have c: "splitString (substring line 1 (length line - 1)) (CHR '','') = [p0, p1, p2]
        \<and> (parseInt (trim p0) = None \<or> parseInt (trim p1) = None \<or> parseInt (trim p2) = None)
        \<longrightarrow> parseElementLine line = None"
    by (auto simp: parseElementLine_def Let_def split: option.splits)
  have d: "line \<in> set (drop 2 (validLinesOf doc)) \<and> parseElementLine line = None
        \<longrightarrow> loadFromFile doc = Inl WrongFormat"
    using malformed_line_aborts by blast
  show ?thesis using a b c d by blast
qed

theorem C7_malformed_entry_aborts_witness:
  "CHR ''y'' \<in> set ''4y'' \<and> \<not> isDigit (CHR ''y'') \<and> parseInt ''4y'' = None
   \<and> splitString (substring ''(0, 4y, 1)'' 1 (length ''(0, 4y, 1)'' - 1)) (CHR '','')
        = [''0'', '' 4y'', '' 1'']
   \<and> parseElementLine ''(0, 4y, 1)'' = None
   \<and> ''(0, 4y, 1)'' \<in> set (drop 2 (validLinesOf ''rows=3\<newline>cols=3\<newline>(1, 1, 1)\<newline>(0, 4y, 1)''))
   \<and> loadFromFile ''rows=3\<newline>cols=3\<newline>(1, 1, 1)\<newline>(0, 4y, 1)'' = Inl WrongFormat"
proof -
  have h1: "CHR ''y'' \<in> set ''4y''" by simp
  have h2: "\<not> isDigit (CHR ''y'')" by code_simp
  have h3: "splitString (substring ''(0, 4y, 1)'' 1 (length ''(0, 4y, 1)'' - 1)) (CHR '','')
        = [''0'', '' 4y'', '' 1'']" by code_simp
  have h4: "trim '' 4y'' = ''4y''" by code_simp
  have h5: "''(0, 4y, 1)'' \<in> set (drop 2 (validLinesOf ''rows=3\<newline>cols=3\<newline>(1, 1, 1)\<newline>(0, 4y, 1)''))"
    by code_simp
  note T = C7_malformed_entry_aborts [of "CHR ''y''" "''4y''" "''(0, 4y, 1)''" "''0''" "'' 4y''" "'' 1''"
      "''rows=3\<newline>cols=3\<newline>(1, 1, 1)\<newline>(0, 4y, 1)''"]
  have p: "parseInt ''4y'' = None" using T h1 h2 by simp
  have q: "parseElementLine ''(0, 4y, 1)'' = None" using T h3 h4 p by simp
  have r: "loadFromFile ''rows=3\<newline>cols=3\<newline>(1, 1, 1)\<newline>(0, 4y, 1)'' = Inl WrongFormat"
    using T h5 q by blast
  show ?thesis using h1 h2 h3 h5 p q r by blast
qed

text \<open>
  C10 (amended).  In a valid document whose numbers are safe integers, the first entry
  with a non-zero value and a negative row or column makes the load fail with the
  out-of-bounds error of \<open>setElement\<close> for that entry, passed on as it is, not with the
  uniform wrong-format error.  When every entry with a negative coordinate has the value
  zero, the load succeeds and nothing is stored at a negative coordinate.
\<close>

theorem C10_negative_coordinates:
  assumes "documentParts doc = Some (r, c, es)" and "safeDocument r c es"
  shows "(find (\<lambda>(row, col, v). v \<noteq> 0 \<and> (row < 0 \<or> col < 0)) es = Some (row, col, v) \<longrightarrow>
            loadFromFile doc =
              Inl (IndexOutOfBounds row col (fst (finalDims r c es)) (snd (finalDims r c es)))
            \<and> loadFromFile doc \<noteq> Inl WrongFormat)
       \<and> (find (\<lambda>(row, col, v). v \<noteq> 0 \<and> (row < 0 \<or> col < 0)) es = None \<longrightarrow>
            (\<exists>m. loadFromFile doc = Inr m \<and>
               (row' < 0 \<or> col' < 0 \<longrightarrow> map_of (elements m) (createKey row' col') = None)))"
proof -
  let ?M = "newMatrix (fst (finalDims r c es)) (snd (finalDims r c es))"
  let ?P = "\<lambda>(row, col, v). v \<noteq> 0 \<and> (row < (0::int) \<or> col < (0::int))"
  let ?Q = "\<lambda>(row, col, v). v \<noteq> 0 \<and> outOfBounds ?M row col"
  note below = safeDocument_coordinates [OF assms(2)]
  have load: "loadFromFile doc = secondPass ?M es"
    using assms(1) by (simp add: loadFromFile_parts)
  have PQ: "?Q e = ?P e" if "e \<in> set es" for e
  proof -
    obtain a b x where e: "e = (a, b, x)" by (cases e) auto
    have "(a, b, x) \<in> set es" using that e by simp
    from outOfBounds_final [OF this below, of r c] show ?thesis using e by simp
  qed
  have fnd: "find ?Q es = find ?P es"
    by (rule find_cong) (simp_all add: PQ)
  have part1: "loadFromFile doc =
              Inl (IndexOutOfBounds row col (fst (finalDims r c es)) (snd (finalDims r c es)))
            \<and> loadFromFile doc \<noteq> Inl WrongFormat"
    if "find ?P es = Some (row, col, v)"
  proof -
    have "find ?Q es = Some (row, col, v)" using that fnd by simp
    from secondPass_fails [OF this] show ?thesis
      using load by (simp add: newMatrix_def)
  qed
  have part2: "\<exists>m. loadFromFile doc = Inr m \<and>
               (row' < 0 \<or> col' < 0 \<longrightarrow> map_of (elements m) (createKey row' col') = None)"
    if "find ?P es = None"
  proof -
    have "find ?Q es = None" using that fnd by simp
    then have "list_all (\<lambda>(row, col, v). v = 0 \<or> \<not> outOfBounds ?M row col) es"
      by (auto simp: find_None_iff list_all_iff)
    from secondPass_succeeds [OF this] obtain m where m: "loadFromFile doc = Inr m"
      using load by auto
    have wk: "wellKeyed m" using loadFromFile_invariants [OF m] by simp
    have "map_of (elements m) (createKey row' col') = None" if neg: "row' < 0 \<or> col' < 0"
    proof (rule ccontr)
      assume "map_of (elements m) (createKey row' col') \<noteq> None"
      then have "createKey row' col' \<in> fst ` set (elements m)"
        by (auto dest: map_of_SomeD intro: rev_image_eqI)
      then have "keyInBounds (rows m) (cols m) (createKey row' col')"
        using wk by (auto simp: wellKeyed_def list_all_iff)
      then show False using neg by (auto simp: keyInBounds_createKey)
    qed
    then show ?thesis using m by blast
  qed
  show ?thesis using part1 part2 by blast
qed

theorem C10_negative_coordinates_witness:
  "documentParts ''rows=2\<newline>cols=2\<newline>(0, 1, 4)\<newline>(3, -1, 5)'' = Some (2, 2, [(0, 1, 4), (3, -1, 5)])
   \<and> safeDocument 2 2 [(0, 1, 4), (3, -1, 5)]
   \<and> find (\<lambda>(row, col, v). v \<noteq> 0 \<and> (row < 0 \<or> col < 0)) ([(0, 1, 4), (3, -1, 5)] :: (int \<times> int \<times> int) list)
       = Some (3, -1, 5)
   \<and> loadFromFile ''rows=2\<newline>cols=2\<newline>(0, 1, 4)\<newline>(3, -1, 5)'' = Inl (IndexOutOfBounds 3 (-1) 4 2)
   \<and> documentParts ''rows=2\<newline>cols=2\<newline>(0, 1, 4)\<newline>(3, -1, 0)'' = Some (2, 2, [(0, 1, 4), (3, -1, 0)])
   \<and> safeDocument 2 2 [(0, 1, 4), (3, -1, 0)]
   \<and> find (\<lambda>(row, col, v). v \<noteq> 0 \<and> (row < 0 \<or> col < 0)) ([(0, 1, 4), (3, -1, 0)] :: (int \<times> int \<times> int) list)
       = None
   \<and> (\<exists>m. loadFromFile ''rows=2\<newline>cols=2\<newline>(0, 1, 4)\<newline>(3, -1, 0)'' = Inr m
         \<and> map_of (elements m) (createKey 3 (-1)) = None)"
proof -
  have d1: "documentParts ''rows=2\<newline>cols=2\<newline>(0, 1, 4)\<newline>(3, -1, 5)''
      = Some (2, 2, [(0, 1, 4), (3, -1, 5)])" by code_simp
  have s1: "safeDocument 2 2 [(0, 1, 4), (3, -1, 5)]"
    by (simp add: safeDocument_def safeInteger_def)
  have f1: "find (\<lambda>(row, col, v). v \<noteq> 0 \<and> (row < 0 \<or> col < 0))
      ([(0, 1, 4), (3, -1, 5)] :: (int \<times> int \<times> int) list) = Some (3, -1, 5)" by simp
  have fd: "finalDims 2 2 [(0, 1, 4), (3, -1, 5)] = (4, 2)" by code_simp
  have l1: "loadFromFile ''rows=2\<newline>cols=2\<newline>(0, 1, 4)\<newline>(3, -1, 5)''
      = Inl (IndexOutOfBounds 3 (-1) 4 2)"
    using C10_negative_coordinates [OF d1 s1, of 3 "-1" 5 0 0] f1 fd by simp
  have d2: "documentParts ''rows=2\<newline>cols=2\<newline>(0, 1, 4)\<newline>(3, -1, 0)''
      = Some (2, 2, [(0, 1, 4), (3, -1, 0)])" by code_simp
  have s2: "safeDocument 2 2 [(0, 1, 4), (3, -1, 0)]"
    by (simp add: safeDocument_def safeInteger_def)
  have f2: "find (\<lambda>(row, col, v). v \<noteq> 0 \<and> (row < 0 \<or> col < 0))
      ([(0, 1, 4), (3, -1, 0)] :: (int \<times> int \<times> int) list) = None" by simp
  have l2: "\<exists>m. loadFromFile ''rows=2\<newline>cols=2\<newline>(0, 1, 4)\<newline>(3, -1, 0)'' = Inr m
         \<and> map_of (elements m) (createKey 3 (-1)) = None"
    using C10_negative_coordinates [OF d2 s2, of 0 0 0 3 "-1"] f2 by simp
  show ?thesis using d1 s1 f1 l1 d2 s2 f2 l2 by blast
qed

text \<open>
  Outside the safe integers the second part fails: the only entry with a negative
  coordinate has the value zero, yet the load fails, at the entry with the row \<open>2^53\<close>,
  because the new row count \<open>2^53 + 1\<close> is rounded to \<open>2^53\<close>.
\<close>

theorem C10_unsafe_row_counterexample:
  "documentParts ''rows=2\<newline>cols=2\<newline>(9007199254740992, 0, 1)\<newline>(-1, 0, 0)''
     = Some (2, 2, [(9007199254740992, 0, 1), (-1, 0, 0)])
   \<and> loadFromFile ''rows=2\<newline>cols=2\<newline>(9007199254740992, 0, 1)\<newline>(-1, 0, 0)''
       = Inl (IndexOutOfBounds 9007199254740992 0 9007199254740992 1)"
  by code_simp

subsection \<open>Addition and subtraction\<close>

lemma map_of_absent: "k \<notin> fst ` set al \<Longrightarrow> map_of al k = None"
  by (simp add: map_of_eq_None_iff)

lemma copyEntries_invariants:
  "copyEntries result es = Inr result' \<Longrightarrow> wellKeyed result \<Longrightarrow> sparsityInvariant result \<Longrightarrow>
   wellKeyed result' \<and> sparsityInvariant result'"
proof (induction es arbitrary: result)
  case Nil
  then show ?case by simp
next
  case (Cons x es)
  obtain key v where x: "x = (key, v)" by (cases x) auto
  from Cons.prems(1) x obtain row col r1 where
    "setElement result row col v = Inr r1" and r: "copyEntries r1 es = Inr result'"
    by (auto split: option.splits sum.splits)
  then have "wellKeyed r1" "sparsityInvariant r1"
    using setElement_wellKeyed setElement_sparsityInvariant Cons.prems(2,3) by blast+
  then show ?case using Cons.IH [OF r] by simp
qed

lemma combineEntries_invariants:
  "combineEntries f result es = Inr result' \<Longrightarrow> wellKeyed result \<Longrightarrow> sparsityInvariant result \<Longrightarrow>
   wellKeyed result' \<and> sparsityInvariant result'"
proof (induction es arbitrary: result)
  case Nil
  then show ?case by simp
next
  case (Cons x es)
  obtain key v where x: "x = (key, v)" by (cases x) auto
  from Cons.prems(1) x obtain row col cur r1 where
    "setElement result row col (f cur v) = Inr r1" and r: "combineEntries f r1 es = Inr result'"
    by (auto split: option.splits sum.splits)
  then have "wellKeyed r1" "sparsityInvariant r1"
    using setElement_wellKeyed setElement_sparsityInvariant Cons.prems(2,3) by blast+
  then show ?case using Cons.IH [OF r] by simp
qed

lemma copyEntries_cells:
  assumes "distinct (map fst es)"
    and "list_all (keyInBounds (rows result) (cols result)) (map fst es)"
  shows "\<exists>result'. copyEntries result es = Inr result'
           \<and> rows result' = rows result \<and> cols result' = cols result
           \<and> (\<forall>i j. cell result' i j =
                 (case map_of es (createKey i j) of Some v \<Rightarrow> v | None \<Rightarrow> cell result i j))"
  using assms
proof (induction es arbitrary: result)
  case Nil
  then show ?case by simp
next
  case (Cons x es)
  obtain key v where x: "x = (key, v)" by (cases x) auto
  have kb: "keyInBounds (rows result) (cols result) key" using Cons.prems(2) x by simp
  then obtain row col where key: "key = createKey row col"
    and b: "0 \<le> row" "row < rows result" "0 \<le> col" "col < cols result"
    by (rule keyInBoundsE)
  have "\<not> outOfBounds result row col" using b by (simp add: outOfBounds_def)
  then obtain r1 where r1: "setElement result row col v = Inr r1"
    using setElement_Inr_iff by blast
  have d: "rows r1 = rows result" "cols r1 = cols result"
    using setElement_dims [OF r1] by simp_all
  have "distinct (map fst es)" using Cons.prems(1) by simp
  moreover have "list_all (keyInBounds (rows r1) (cols r1)) (map fst es)"
    using Cons.prems(2) d by simp
  ultimately obtain result' where res: "copyEntries r1 es = Inr result'"
    and d': "rows result' = rows r1" "cols result' = cols r1"
    and cells: "\<forall>i j. cell result' i j =
        (case map_of es (createKey i j) of Some v \<Rightarrow> v | None \<Rightarrow> cell r1 i j)"
    using Cons.IH [of r1] by blast
  have absent: "map_of es key = None"
    using Cons.prems(1) x by (intro map_of_absent) simp
  have "cell result' i j =
      (case map_of (x # es) (createKey i j) of Some v \<Rightarrow> v | None \<Rightarrow> cell result i j)" for i j
  proof (cases "i = row \<and> j = col")
    case True
    then show ?thesis
      using cells absent key x setElement_cell [OF r1, of i j] by simp
  next
    case False
    then have ne: "createKey i j \<noteq> key" using key by (simp add: createKey_inj)
    have eq: "cell r1 i j = cell result i j"
      using False setElement_cell [OF r1, of i j] by auto
    show ?thesis
      using cells ne x by (simp add: eq split: option.split)
  qed
  moreover have "copyEntries result (x # es) = Inr result'"
    using x key r1 res by (simp add: parseKey_createKey)
  ultimately show ?case using d d' by simp
qed

lemma combineEntries_cells:
  assumes "distinct (map fst es)"
    and "list_all (keyInBounds (rows result) (cols result)) (map fst es)"
  shows "\<exists>result'. combineEntries f result es = Inr result'
           \<and> rows result' = rows result \<and> cols result' = cols result
           \<and> (\<forall>i j. cell result' i j =
                 (case map_of es (createKey i j) of
                    Some v \<Rightarrow> f (cell result i j) v
                  | None \<Rightarrow> cell result i j))"
  using assms
proof (induction es arbitrary: result)
  case Nil
  then show ?case by simp
next
  case (Cons x es)
  obtain key v where x: "x = (key, v)" by (cases x) auto
  have kb: "keyInBounds (rows result) (cols result) key" using Cons.prems(2) x by simp
  then obtain row col where key: "key = createKey row col"
    and b: "0 \<le> row" "row < rows result" "0 \<le> col" "col < cols result"
    by (rule keyInBoundsE)
  have nb: "\<not> outOfBounds result row col" using b by (simp add: outOfBounds_def)
  then have g: "getElement result row col = Inr (cell result row col)"
    by (simp add: getElement_cell)
  from nb obtain r1 where r1: "setElement result row col (f (cell result row col) v) = Inr r1"
    using setElement_Inr_iff by blast
  have d: "rows r1 = rows result" "cols r1 = cols result"
    using setElement_dims [OF r1] by simp_all
  have "distinct (map fst es)" using Cons.prems(1) by simp
  moreover have "list_all (keyInBounds (rows r1) (cols r1)) (map fst es)"
    using Cons.prems(2) d by simp
  ultimately obtain result' where res: "combineEntries f r1 es = Inr result'"
    and d': "rows result' = rows r1" "cols result' = cols r1"
    and cells: "\<forall>i j. cell result' i j =
        (case map_of es (createKey i j) of Some v \<Rightarrow> f (cell r1 i j) v | None \<Rightarrow> cell r1 i j)"
    using Cons.IH [of r1] by blast
  have absent: "map_of es key = None"
    using Cons.prems(1) x by (intro map_of_absent) simp
  have "cell result' i j =
      (case map_of (x # es) (createKey i j) of
         Some v \<Rightarrow> f (cell result i j) v | None \<Rightarrow> cell result i j)" for i j
  proof (cases "i = row \<and> j = col")
    case True
    then show ?thesis
      using cells absent key x setElement_cell [OF r1, of i j] by simp
  next
    case False
    then have ne: "createKey i j \<noteq> key" using key by (simp add: createKey_inj)
    have eq: "cell r1 i j = cell result i j"
      using False setElement_cell [OF r1, of i j] by auto
    show ?thesis
      using cells ne x by (simp add: eq split: option.split)
  qed
  moreover have "combineEntries f result (x # es) = Inr result'"
    using x key g r1 res by (simp add: parseKey_createKey)
  ultimately show ?case using d d' by simp
qed

lemma add_subtract_cells:
  assumes "wellKeyed a" and "wellKeyed b" and "rows a = rows b" and "cols a = cols b"
  shows "\<exists>s d. add a b = Inr s \<and> subtract a b = Inr d
           \<and> rows s = rows a \<and> cols s = cols a \<and> rows d = rows a \<and> cols d = cols a
           \<and> wellKeyed s \<and> sparsityInvariant s \<and> wellKeyed d \<and> sparsityInvariant d
           \<and> (\<forall>i j. cell s i j =
                 (case map_of (elements b) (createKey i j) of
                    Some v \<Rightarrow> roundToDouble (cell a i j + v)
                  | None \<Rightarrow> cell a i j))
           \<and> (\<forall>i j. cell d i j =
                 (case map_of (elements b) (createKey i j) of
                    Some v \<Rightarrow> roundToDouble (cell a i j - v)
                  | None \<Rightarrow> cell a i j))"
proof -
  let ?N = "newMatrix (rows a) (cols a)"
  have da: "distinct (map fst (elements a))"
    and ka: "list_all (keyInBounds (rows ?N) (cols ?N)) (map fst (elements a))"
    using assms(1) by (simp_all add: wellKeyed_def newMatrix_def)
  from copyEntries_cells [OF da ka] obtain r0 where r0: "copyEntries ?N (elements a) = Inr r0"
    and d0: "rows r0 = rows a" "cols r0 = cols a"
    and c0: "\<forall>i j. cell r0 i j =
        (case map_of (elements a) (createKey i j) of Some v \<Rightarrow> v | None \<Rightarrow> cell ?N i j)"
    by (auto simp: newMatrix_def)
  have c0': "cell r0 i j = cell a i j" for i j
  proof -
    have "cell r0 i j = (case map_of (elements a) (createKey i j) of Some v \<Rightarrow> v | None \<Rightarrow> 0)"
      using c0 by (simp add: cell_newMatrix split: option.split)
    then show ?thesis by (simp add: cell_def [of a])
  qed
  have inv0: "wellKeyed r0" "sparsityInvariant r0"
    using copyEntries_invariants [OF r0 wellKeyed_newMatrix sparsityInvariant_newMatrix]
    by simp_all
  have db: "distinct (map fst (elements b))"
    and kb: "list_all (keyInBounds (rows r0) (cols r0)) (map fst (elements b))"
    using assms(2,3,4) d0 by (simp_all add: wellKeyed_def)
  from combineEntries_cells [OF db kb, of "\<lambda>a b. roundToDouble (a + b)"] obtain s where
    s: "combineEntries (\<lambda>a b. roundToDouble (a + b)) r0 (elements b) = Inr s"
    and ds: "rows s = rows r0" "cols s = cols r0"
    and cs: "\<forall>i j. cell s i j =
        (case map_of (elements b) (createKey i j) of
           Some v \<Rightarrow> roundToDouble (cell r0 i j + v) | None \<Rightarrow> cell r0 i j)"
    by blast
  from combineEntries_cells [OF db kb, of "\<lambda>a b. roundToDouble (a - b)"] obtain d where
    d: "combineEntries (\<lambda>a b. roundToDouble (a - b)) r0 (elements b) = Inr d"
    and dd: "rows d = rows r0" "cols d = cols r0"
    and cd: "\<forall>i j. cell d i j =
        (case map_of (elements b) (createKey i j) of
           Some v \<Rightarrow> roundToDouble (cell r0 i j - v) | None \<Rightarrow> cell r0 i j)"
    by blast
  have "add a b = Inr s" using assms(3,4) r0 s by (simp add: add_def)
  moreover have "subtract a b = Inr d" using assms(3,4) r0 d by (simp add: subtract_def)
  moreover have "\<forall>i j. cell s i j =
      (case map_of (elements b) (createKey i j) of
         Some v \<Rightarrow> roundToDouble (cell a i j + v)
       | None \<Rightarrow> cell a i j)"
    using cs c0' by (simp split: option.split)
  moreover have "\<forall>i j. cell d i j =
      (case map_of (elements b) (createKey i j) of
         Some v \<Rightarrow> roundToDouble (cell a i j - v)
       | None \<Rightarrow> cell a i j)"
    using cd c0' by (simp split: option.split)
  moreover have "wellKeyed s \<and> sparsityInvariant s"
    using combineEntries_invariants [OF s inv0] .
  moreover have "wellKeyed d \<and> sparsityInvariant d"
    using combineEntries_invariants [OF d inv0] .
  ultimately show ?thesis using d0 ds dd by simp
qed

lemma cell_lookupEntry: "cell m i j = lookupEntry (elements m) i j"
  by (simp add: cell_def lookupEntry_def)

lemma lookupEntry_Cons:
  "lookupEntry ((createKey r c, v) # es) i j =
     (if i = r \<and> j = c then v else lookupEntry es i j)"
  by (auto simp: lookupEntry_def createKey_inj)

lemma lookupEntry_absent:
  "createKey i j \<notin> fst ` set es \<Longrightarrow> lookupEntry es i j = 0"
  by (simp add: lookupEntry_def map_of_absent)

lemma entries_determined:
  assumes "wellKeyed m" "sparsityInvariant m" "wellKeyed m'" "sparsityInvariant m'"
    and "\<And>i j. cell m i j = cell m' i j"
  shows "set (elements m) \<subseteq> set (elements m')"
proof
  fix kv assume mem: "kv \<in> set (elements m)"
  obtain k v where kv: "kv = (k, v)" by (cases kv) auto
  have "keyInBounds (rows m) (cols m) k"
    using assms(1) mem kv by (force simp: wellKeyed_def list_all_iff)
  then obtain i j where k: "k = createKey i j" by (rule keyInBoundsE)
  have "distinct (map fst (elements m))" using assms(1) by (simp add: wellKeyed_def)
  then have "map_of (elements m) k = Some v" using mem kv by simp
  then have cv: "cell m i j = v" using k by (simp add: cell_def)
  have "v \<noteq> 0" using assms(2) mem kv by (force simp: sparsityInvariant_def list_all_iff)
  then have "cell m' i j \<noteq> 0" using cv assms(5) [of i j] by simp
  then have "map_of (elements m') k = Some v"
    using cv assms(5) [of i j] k by (auto simp: cell_def split: option.splits)
  then show "kv \<in> set (elements m')" using kv by (auto dest: map_of_SomeD)
qed

lemma entries_equal:
  assumes "wellKeyed m" "sparsityInvariant m" "wellKeyed m'" "sparsityInvariant m'"
    and "\<And>i j. cell m i j = cell m' i j"
  shows "set (elements m) = set (elements m') \<and> elementCount m = elementCount m'"
proof -
  have eq: "set (elements m) = set (elements m')"
    using entries_determined [OF assms(1-4)] entries_determined [OF assms(3,4,1,2)] assms(5)
    by (simp add: subset_antisym)
  have "distinct (elements m)" "distinct (elements m')"
    using assms(1,3) by (auto simp: wellKeyed_def distinct_map)
  then have "length (elements m) = length (elements m')"
    using eq by (metis distinct_card)
  then show ?thesis using eq assms(2,4) by (simp add: sparsityInvariant_def)
qed

lemma exactSums_entry:
  assumes "exactSums a b" and "map_of (elements b) (createKey i j) = Some v"
  shows "\<bar>cell a i j\<bar> \<le> 2 ^ 53 \<and> \<bar>cell a i j + v\<bar> \<le> 2 ^ 53"
proof -
  have "(createKey i j, v) \<in> set (elements b)"
    using assms(2) by (rule map_of_SomeD)
  then show ?thesis
    using assms(1) by (force simp: exactSums_def list_all_iff parseKey_createKey)
qed

text \<open>
  C5 (amended).  For matrices \<open>a\<close> and \<open>b\<close> of the same shape, as the interface produces
  them (keys in bounds, and the invariant for \<open>a\<close>), with dimensions of at most \<open>2^53\<close>
  and such that, at every entry of \<open>b\<close>, the value of \<open>a\<close> and the sum of the two values
  have a magnitude of at most \<open>2^53\<close>: \<open>a.add(b)\<close> succeeds, subtracting \<open>b\<close> from the
  sum succeeds, and the result has the dimensions of \<open>a\<close>, the same value as \<open>a\<close> at
  every coordinate, the same set of stored entries and the same count.
\<close>

theorem C5_add_then_subtract:
  assumes "wellKeyed a" and "sparsityInvariant a" and "wellKeyed b"
    and "rows a = rows b" and "cols a = cols b"
    and "safeDims a" and "exactSums a b"
  shows "\<exists>s r. add a b = Inr s \<and> subtract s b = Inr r
           \<and> rows r = rows a \<and> cols r = cols a
           \<and> (\<forall>i j. getElement r i j = getElement a i j)
           \<and> set (elements r) = set (elements a)
           \<and> elementCount r = elementCount a"
proof -
  from add_subtract_cells [OF assms(1,3,4,5)] obtain s where s: "add a b = Inr s"
    and ds: "rows s = rows a" "cols s = cols a" and ws: "wellKeyed s"
    and cs: "\<forall>i j. cell s i j =
        (case map_of (elements b) (createKey i j) of
           Some v \<Rightarrow> roundToDouble (cell a i j + v)
         | None \<Rightarrow> cell a i j)"
    by blast
  have "rows s = rows b" "cols s = cols b" using ds assms(4,5) by simp_all
  from add_subtract_cells [OF ws assms(3) this] obtain r where r: "subtract s b = Inr r"
    and dr: "rows r = rows s" "cols r = cols s"
    and wr: "wellKeyed r" "sparsityInvariant r"
    and cr: "\<forall>i j. cell r i j =
        (case map_of (elements b) (createKey i j) of
           Some v \<Rightarrow> roundToDouble (cell s i j - v)
         | None \<Rightarrow> cell s i j)"
    by blast
  have cells: "cell r i j = cell a i j" for i j
  proof (cases "map_of (elements b) (createKey i j)")
    case None
    then show ?thesis using cs cr by simp
  next
    case (Some v)
    from exactSums_entry [OF assms(7) Some]
    have ba: "\<bar>cell a i j\<bar> \<le> 2 ^ 53" and bs: "\<bar>cell a i j + v\<bar> \<le> 2 ^ 53"
      by simp_all
    have "cell s i j = cell a i j + v"
      using cs Some roundToDouble_exact [OF bs] by simp
    then have "cell r i j = roundToDouble (cell a i j)"
      using cr Some by simp
    then show ?thesis using roundToDouble_exact [OF ba] by simp
  qed
  have "getElement r i j = getElement a i j" for i j
    using cells dr ds by (simp add: getElement_cell outOfBounds_def)
  moreover have "set (elements r) = set (elements a) \<and> elementCount r = elementCount a"
    using entries_equal [OF wr assms(1,2)] cells by simp
  ultimately show ?thesis using s r dr ds by simp
qed

theorem C5_add_then_subtract_witness:
  "wellKeyed \<lparr>rows = 2, cols = 2, elements = [(''0,0'', 1), (''0,1'', 2)], elementCount = 2\<rparr>
   \<and> sparsityInvariant \<lparr>rows = 2, cols = 2, elements = [(''0,0'', 1), (''0,1'', 2)], elementCount = 2\<rparr>
   \<and> wellKeyed \<lparr>rows = 2, cols = 2, elements = [(''0,0'', - 1), (''1,1'', 5)], elementCount = 2\<rparr>
   \<and> safeDims \<lparr>rows = 2, cols = 2, elements = [(''0,0'', 1), (''0,1'', 2)], elementCount = 2\<rparr>
   \<and> exactSums \<lparr>rows = 2, cols = 2, elements = [(''0,0'', 1), (''0,1'', 2)], elementCount = 2\<rparr>
        \<lparr>rows = 2, cols = 2, elements = [(''0,0'', - 1), (''1,1'', 5)], elementCount = 2\<rparr>
   \<and> add \<lparr>rows = 2, cols = 2, elements = [(''0,0'', 1), (''0,1'', 2)], elementCount = 2\<rparr>
          \<lparr>rows = 2, cols = 2, elements = [(''0,0'', - 1), (''1,1'', 5)], elementCount = 2\<rparr>
       = Inr \<lparr>rows = 2, cols = 2, elements = [(''0,1'', 2), (''1,1'', 5)], elementCount = 2\<rparr>
   \<and> subtract \<lparr>rows = 2, cols = 2, elements = [(''0,1'', 2), (''1,1'', 5)], elementCount = 2\<rparr>
          \<lparr>rows = 2, cols = 2, elements = [(''0,0'', - 1), (''1,1'', 5)], elementCount = 2\<rparr>
       = Inr \<lparr>rows = 2, cols = 2, elements = [(''0,1'', 2), (''0,0'', 1)], elementCount = 2\<rparr>
   \<and> set [(''0,1'', 2 :: int), (''0,0'', 1)] = set [(''0,0'', 1), (''0,1'', 2)]"
proof -
  let ?a = "\<lparr>rows = 2, cols = 2, elements = [(''0,0'', 1), (''0,1'', 2)], elementCount = 2\<rparr>"
  let ?b = "\<lparr>rows = 2, cols = 2, elements = [(''0,0'', - 1), (''1,1'', 5)], elementCount = 2\<rparr>"
  let ?s = "\<lparr>rows = 2, cols = 2, elements = [(''0,1'', 2), (''1,1'', 5)], elementCount = 2\<rparr>"
  let ?r = "\<lparr>rows = 2, cols = 2, elements = [(''0,1'', 2), (''0,0'', 1)], elementCount = 2\<rparr>"
  have wa: "wellKeyed ?a" by code_simp
  have sa: "sparsityInvariant ?a" by code_simp
  have wb: "wellKeyed ?b" by code_simp
  have sd: "safeDims ?a" by (simp add: safeDims_def)
  have ex: "exactSums ?a ?b" by code_simp
  have s: "add ?a ?b = Inr ?s" by code_simp
  have r: "subtract ?s ?b = Inr ?r" by code_simp
  from C5_add_then_subtract [OF wa sa wb _ _ sd ex] obtain s' r' where
    "add ?a ?b = Inr s'" "subtract s' ?b = Inr r'" "set (elements r') = set (elements ?a)"
    by auto
  then have "set (elements ?r) = set (elements ?a)" using s r by simp
  then show ?thesis using wa sa wb sd ex s r by simp
qed

text \<open>
  Outside the range the claim fails: \<open>1 + 2^53\<close> is rounded to \<open>2^53\<close>, so subtracting
  \<open>2^53\<close> again gives \<open>0\<close>, and the entry \<open>1\<close> of \<open>a\<close> is lost.
\<close>

theorem C5_rounded_sum_counterexample:
  "add \<lparr>rows = 1, cols = 1, elements = [(''0,0'', 1)], elementCount = 1\<rparr>
       \<lparr>rows = 1, cols = 1, elements = [(''0,0'', 9007199254740992)], elementCount = 1\<rparr>
     = Inr \<lparr>rows = 1, cols = 1, elements = [(''0,0'', 9007199254740992)], elementCount = 1\<rparr>
   \<and> subtract \<lparr>rows = 1, cols = 1, elements = [(''0,0'', 9007199254740992)], elementCount = 1\<rparr>
       \<lparr>rows = 1, cols = 1, elements = [(''0,0'', 9007199254740992)], elementCount = 1\<rparr>
     = Inr \<lparr>rows = 1, cols = 1, elements = [], elementCount = 0\<rparr>
   \<and> getElement \<lparr>rows = 1, cols = 1, elements = [], elementCount = 0\<rparr> 0 0 = Inr 0
   \<and> getElement \<lparr>rows = 1, cols = 1, elements = [(''0,0'', 1)], elementCount = 1\<rparr> 0 0 = Inr 1"
  by code_simp

subsection \<open>Multiplication\<close>

lemma multiplyInner_invariants:
  "multiplyInner rowA colA valueA result bs = Inr result' \<Longrightarrow>
   wellKeyed result \<Longrightarrow> sparsityInvariant result \<Longrightarrow>
   wellKeyed result' \<and> sparsityInvariant result'"
proof (induction bs arbitrary: result)
  case Nil
  then show ?case by simp
next
  case (Cons x bs)
  obtain keyB valueB where x: "x = (keyB, valueB)" by (cases x) auto
  from Cons.prems(1) x obtain rowB colB where pk: "parseKey keyB = Some (rowB, colB)"
    by (auto split: option.splits)
  show ?case
  proof (cases "colA = rowB \<and> roundToDouble (valueA * valueB) \<noteq> 0")
    case True
    then obtain cur r1 where
      "setElement result rowA colB (roundToDouble (cur + roundToDouble (valueA * valueB))) = Inr r1"
      and r: "multiplyInner rowA colA valueA r1 bs = Inr result'"
      using Cons.prems(1) x pk by (auto simp: Let_def split: sum.splits)
    then have "wellKeyed r1" "sparsityInvariant r1"
      using setElement_wellKeyed setElement_sparsityInvariant Cons.prems(2,3) by blast+
    then show ?thesis using Cons.IH [OF r] by simp
  next
    case False
    then have "multiplyInner rowA colA valueA result bs = Inr result'"
      using Cons.prems(1) x pk by (auto simp: Let_def split: if_splits)
    then show ?thesis using Cons.IH Cons.prems(2,3) by simp
  qed
qed

lemma multiplyOuter_invariants:
  "multiplyOuter bs result as = Inr result' \<Longrightarrow>
   wellKeyed result \<Longrightarrow> sparsityInvariant result \<Longrightarrow>
   wellKeyed result' \<and> sparsityInvariant result'"
proof (induction as arbitrary: result)
  case Nil
  then show ?case by simp
next
  case (Cons x as)
  obtain keyA valueA where x: "x = (keyA, valueA)" by (cases x) auto
  from Cons.prems(1) x obtain rowA colA r1 where
    "multiplyInner rowA colA valueA result bs = Inr r1"
    and r: "multiplyOuter bs r1 as = Inr result'"
    by (auto split: option.splits sum.splits)
  then have "wellKeyed r1 \<and> sparsityInvariant r1"
    using multiplyInner_invariants Cons.prems(2,3) by blast
  then show ?case using Cons.IH [OF r] by simp
qed

text \<open>
  The inner loop adds \<open>valueA * valueB\<close> to the entries of one row.  The products and
  the sums are exact as long as the entry and the products still to be added have
  absolute values that sum to at most \<open>2 ^ 53\<close>.
\<close>

lemma multiplyInner_cells:
  assumes "distinct (map fst bs)"
    and "list_all (keyInBounds n (cols result)) (map fst bs)"
    and "0 \<le> rowA" and "rowA < rows result"
    and "\<forall>j. \<bar>cell result rowA j\<bar> + \<bar>valueA * lookupEntry bs colA j\<bar> \<le> 2 ^ 53"
  shows "\<exists>result'. multiplyInner rowA colA valueA result bs = Inr result'
           \<and> rows result' = rows result \<and> cols result' = cols result
           \<and> (\<forall>i j. cell result' i j =
                 cell result i j + (if i = rowA then valueA * lookupEntry bs colA j else 0))"
  using assms
proof (induction bs arbitrary: result)
  case Nil
  then show ?case by (simp add: lookupEntry_def)
next
  case (Cons x bs)
  obtain keyB valueB where x: "x = (keyB, valueB)" by (cases x) auto
  have "keyInBounds n (cols result) keyB" using Cons.prems(2) x by simp
  then obtain rowB colB where key: "keyB = createKey rowB colB"
    and b: "0 \<le> colB" "colB < cols result"
    by (rule keyInBoundsE)
  have pk: "parseKey keyB = Some (rowB, colB)" using key by (simp add: parseKey_createKey)
  have dist: "distinct (map fst bs)" using Cons.prems(1) by simp
  have absent: "lookupEntry bs rowB colB = 0"
    using Cons.prems(1) x key by (intro lookupEntry_absent) auto
  have look: "lookupEntry (x # bs) i j = (if i = rowB \<and> j = colB then valueB else lookupEntry bs i j)"
    for i j
    using x key by (simp add: lookupEntry_Cons)
  have bound: "\<bar>cell result rowA j\<bar> + \<bar>valueA * lookupEntry (x # bs) colA j\<bar> \<le> 2 ^ 53" for j
    using Cons.prems(5) by simp
  have bound_tl: "\<bar>cell result rowA j\<bar> + \<bar>valueA * lookupEntry bs colA j\<bar> \<le> 2 ^ 53" for j
  proof (cases "colA = rowB \<and> j = colB")
    case True
    then have "lookupEntry bs colA j = 0" using absent by simp
    then show ?thesis using bound [of j] by simp
  next
    case False
    then have "lookupEntry (x # bs) colA j = lookupEntry bs colA j" using look by auto
    then show ?thesis using bound [of j] by simp
  qed
  show ?case
  proof (cases "colA = rowB")
    case same: True
    have here: "\<bar>cell result rowA colB\<bar> + \<bar>valueA * valueB\<bar> \<le> 2 ^ 53"
      using bound [of colB] same look by simp
    then have "\<bar>valueA * valueB\<bar> \<le> 2 ^ 53" by linarith
    then have pe: "roundToDouble (valueA * valueB) = valueA * valueB"
      by (rule roundToDouble_exact)
    have "\<bar>cell result rowA colB + valueA * valueB\<bar> \<le> 2 ^ 53"
      using here by linarith
    then have se: "roundToDouble (cell result rowA colB + valueA * valueB)
        = cell result rowA colB + valueA * valueB"
      by (rule roundToDouble_exact)
    show ?thesis
    proof (cases "valueA * valueB \<noteq> 0")
      case True
      have nb: "\<not> outOfBounds result rowA colB"
        using b Cons.prems(3,4) by (simp add: outOfBounds_def)
      then have g: "getElement result rowA colB = Inr (cell result rowA colB)"
        by (simp add: getElement_cell)
      from nb obtain r1 where
        r1: "setElement result rowA colB (cell result rowA colB + valueA * valueB) = Inr r1"
        using setElement_Inr_iff by blast
      have d: "rows r1 = rows result" "cols r1 = cols result"
        using setElement_dims [OF r1] by simp_all
      have c1: "cell r1 i j = (if i = rowA \<and> j = colB
          then cell result rowA colB + valueA * valueB else cell result i j)" for i j
        using setElement_cell [OF r1, of i j] by auto
      have b1: "\<forall>j. \<bar>cell r1 rowA j\<bar> + \<bar>valueA * lookupEntry bs colA j\<bar> \<le> 2 ^ 53"
      proof
        fix j
        show "\<bar>cell r1 rowA j\<bar> + \<bar>valueA * lookupEntry bs colA j\<bar> \<le> 2 ^ 53"
        proof (cases "j = colB")
          case True
          have "lookupEntry bs colA j = 0" using True same absent by simp
          moreover have "cell r1 rowA j = cell result rowA colB + valueA * valueB"
            using c1 [of rowA j] True by simp
          ultimately show ?thesis using here by simp
        next
          case False
          then have "cell r1 rowA j = cell result rowA j" using c1 [of rowA j] by simp
          then show ?thesis using bound_tl [of j] by simp
        qed
      qed
      have "list_all (keyInBounds n (cols r1)) (map fst bs)" "0 \<le> rowA" "rowA < rows r1"
        using Cons.prems(2,3,4) d by simp_all
      from Cons.IH [OF dist this b1] obtain result' where
        res: "multiplyInner rowA colA valueA r1 bs = Inr result'"
        and d': "rows result' = rows r1" "cols result' = cols r1"
        and cells: "\<forall>i j. cell result' i j =
            cell r1 i j + (if i = rowA then valueA * lookupEntry bs colA j else 0)"
        by blast
      have step: "multiplyInner rowA colA valueA result (x # bs) = Inr result'"
        using x pk same True g r1 res pe se by (simp add: Let_def)
      have "cell result' i j =
          cell result i j + (if i = rowA then valueA * lookupEntry (x # bs) colA j else 0)" for i j
      proof (cases "i = rowA \<and> j = colB")
        case ij: True
        have "cell r1 i j = cell result rowA colB + valueA * valueB"
          using c1 [of i j] ij by simp
        then show ?thesis
          using cells ij same absent look by simp
      next
        case ij: False
        have "cell r1 i j = cell result i j"
          using c1 [of i j] ij by auto
        then show ?thesis
          using cells ij same look by auto
      qed
      then show ?thesis using step d d' by simp
    next
      case False
      have "list_all (keyInBounds n (cols result)) (map fst bs)"
        using Cons.prems(2) by simp
      moreover have "\<forall>j. \<bar>cell result rowA j\<bar> + \<bar>valueA * lookupEntry bs colA j\<bar> \<le> 2 ^ 53"
        using bound_tl by blast
      ultimately obtain result' where
        res: "multiplyInner rowA colA valueA result bs = Inr result'"
        and d': "rows result' = rows result" "cols result' = cols result"
        and cells: "\<forall>i j. cell result' i j =
            cell result i j + (if i = rowA then valueA * lookupEntry bs colA j else 0)"
        using Cons.IH [OF dist _ Cons.prems(3,4)] by blast
      have step: "multiplyInner rowA colA valueA result (x # bs) = Inr result'"
        using x pk same False res pe by (simp add: Let_def)
      have eq: "valueA * lookupEntry (x # bs) colA j = valueA * lookupEntry bs colA j" for j
        using False same look absent by auto
      have "cell result' i j =
          cell result i j + (if i = rowA then valueA * lookupEntry (x # bs) colA j else 0)" for i j
        using cells eq [of j] by auto
      then show ?thesis using step d' by simp
    qed
  next
    case other: False
    have "list_all (keyInBounds n (cols result)) (map fst bs)"
      using Cons.prems(2) by simp
    moreover have "\<forall>j. \<bar>cell result rowA j\<bar> + \<bar>valueA * lookupEntry bs colA j\<bar> \<le> 2 ^ 53"
      using bound_tl by blast
    ultimately obtain result' where
      res: "multiplyInner rowA colA valueA result bs = Inr result'"
      and d': "rows result' = rows result" "cols result' = cols result"
      and cells: "\<forall>i j. cell result' i j =
          cell result i j + (if i = rowA then valueA * lookupEntry bs colA j else 0)"
      using Cons.IH [OF dist _ Cons.prems(3,4)] by blast
    have step: "multiplyInner rowA colA valueA result (x # bs) = Inr result'"
      using x pk other res by simp
    have eq: "valueA * lookupEntry (x # bs) colA j = valueA * lookupEntry bs colA j" for j
      using other look by auto
    have "cell result' i j =
        cell result i j + (if i = rowA then valueA * lookupEntry (x # bs) colA j else 0)" for i j
      using cells eq [of j] by auto
    then show ?thesis using step d' by simp
  qed
qed

lemma sum_list_update_point:
  fixes g h :: "int \<Rightarrow> int"
  assumes "0 \<le> c" and "c < n" and "g c = 0"
  shows "(\<Sum>k\<leftarrow>[0..<nat n]. (if int k = c then v else g (int k)) * h (int k))
         = v * h c + (\<Sum>k\<leftarrow>[0..<nat n]. g (int k) * h (int k))"
proof -
  have pt: "(if int k = c then v else g (int k)) * h (int k)
      = (if k = nat c then v * h c else 0) + g (int k) * h (int k)" for k
    using assms(1,3) by auto
  have "(\<Sum>k\<leftarrow>[0..<nat n]. (if int k = c then v else g (int k)) * h (int k))
      = (\<Sum>k\<leftarrow>[0..<nat n]. (if k = nat c then v * h c else 0) + g (int k) * h (int k))"
    by (simp only: pt)
  also have "\<dots> = (\<Sum>k\<leftarrow>[0..<nat n]. (if k = nat c then v * h c else 0))
      + (\<Sum>k\<leftarrow>[0..<nat n]. g (int k) * h (int k))"
    by (simp add: sum_list_addf)
  also have "(\<Sum>k\<leftarrow>[0..<nat n]. (if k = nat c then v * h c else 0)) = v * h c"
  proof -
    have "(\<Sum>k\<leftarrow>[0..<nat n]. (if k = nat c then v * h c else 0))
        = (\<Sum>k\<in>{0..<nat n}. (if k = nat c then v * h c else 0))"
      by (simp add: interv_sum_list_conv_sum_set_nat)
    also have "\<dots> = v * h c"
      using assms(1,2) by (simp add: sum.delta)
    finally show ?thesis .
  qed
  finally show ?thesis .
qed

lemma sum_list_abs_nonneg:
  fixes f :: "nat \<Rightarrow> int"
  shows "0 \<le> (\<Sum>k\<leftarrow>ks. \<bar>f k\<bar>)"
  by (induction ks) simp_all

text \<open>
  The outer loop.  The hypothesis bounds, for every coordinate, the absolute value of
  the entry so far plus the absolute values of the products still to be added.
\<close>

lemma multiplyOuter_cells:
  assumes "distinct (map fst as)"
    and "list_all (keyInBounds (rows result) n) (map fst as)"
    and "distinct (map fst bs)"
    and "list_all (keyInBounds n' (cols result)) (map fst bs)"
    and "\<forall>i j. \<bar>cell result i j\<bar>
           + (\<Sum>k\<leftarrow>[0..<nat n]. \<bar>lookupEntry as i (int k) * lookupEntry bs (int k) j\<bar>) \<le> 2 ^ 53"
  shows "\<exists>result'. multiplyOuter bs result as = Inr result'
           \<and> rows result' = rows result \<and> cols result' = cols result
           \<and> (\<forall>i j. cell result' i j =
                 cell result i j
                 + (\<Sum>k\<leftarrow>[0..<nat n]. lookupEntry as i (int k) * lookupEntry bs (int k) j))"
  using assms(1,2,4,5)
proof (induction as arbitrary: result)
  case Nil
  then show ?case by (simp add: lookupEntry_def)
next
  case (Cons x as)
  obtain keyA valueA where x: "x = (keyA, valueA)" by (cases x) auto
  have "keyInBounds (rows result) n keyA" using Cons.prems(2) x by simp
  then obtain rowA colA where key: "keyA = createKey rowA colA"
    and b: "0 \<le> rowA" "rowA < rows result" "0 \<le> colA" "colA < n"
    by (rule keyInBoundsE)
  have pk: "parseKey keyA = Some (rowA, colA)" using key by (simp add: parseKey_createKey)
  have dist: "distinct (map fst as)" using Cons.prems(1) by simp
  have absent: "lookupEntry as rowA colA = 0"
    using Cons.prems(1) x key by (intro lookupEntry_absent) auto
  have bound: "\<bar>cell result i j\<bar>
      + (\<Sum>k\<leftarrow>[0..<nat n]. \<bar>lookupEntry (x # as) i (int k) * lookupEntry bs (int k) j\<bar>) \<le> 2 ^ 53"
    for i j
    using Cons.prems(4) by simp
  have split_abs: "(\<Sum>k\<leftarrow>[0..<nat n]. \<bar>lookupEntry (x # as) rowA (int k) * lookupEntry bs (int k) j\<bar>)
      = \<bar>valueA * lookupEntry bs colA j\<bar>
        + (\<Sum>k\<leftarrow>[0..<nat n]. \<bar>lookupEntry as rowA (int k) * lookupEntry bs (int k) j\<bar>)" for j
  proof -
    have "(\<Sum>k\<leftarrow>[0..<nat n]. \<bar>lookupEntry (x # as) rowA (int k) * lookupEntry bs (int k) j\<bar>)
        = (\<Sum>k\<leftarrow>[0..<nat n]. (if int k = colA then \<bar>valueA\<bar> else \<bar>lookupEntry as rowA (int k)\<bar>)
              * \<bar>lookupEntry bs (int k) j\<bar>)"
      using x key
      by (intro arg_cong [where f = sum_list] map_cong refl) (auto simp: lookupEntry_Cons abs_mult)
    also have "\<dots> = \<bar>valueA\<bar> * \<bar>lookupEntry bs colA j\<bar>
        + (\<Sum>k\<leftarrow>[0..<nat n]. \<bar>lookupEntry as rowA (int k)\<bar> * \<bar>lookupEntry bs (int k) j\<bar>)"
      using b(3,4) absent
      by (intro sum_list_update_point [where g = "\<lambda>k. \<bar>lookupEntry as rowA k\<bar>"
            and h = "\<lambda>k. \<bar>lookupEntry bs k j\<bar>"]) simp_all
    finally show ?thesis by (simp add: abs_mult)
  qed
  have other_abs: "(\<Sum>k\<leftarrow>[0..<nat n]. \<bar>lookupEntry (x # as) i (int k) * lookupEntry bs (int k) j\<bar>)
      = (\<Sum>k\<leftarrow>[0..<nat n]. \<bar>lookupEntry as i (int k) * lookupEntry bs (int k) j\<bar>)"
    if "i \<noteq> rowA" for i j
    using that x key by (simp add: lookupEntry_Cons)
  have rest: "0 \<le> (\<Sum>k\<leftarrow>[0..<nat n]. \<bar>lookupEntry as i (int k) * lookupEntry bs (int k) j\<bar>)" for i j
    by (rule sum_list_abs_nonneg)
  have inner: "\<forall>j. \<bar>cell result rowA j\<bar> + \<bar>valueA * lookupEntry bs colA j\<bar> \<le> 2 ^ 53"
  proof
    fix j
    show "\<bar>cell result rowA j\<bar> + \<bar>valueA * lookupEntry bs colA j\<bar> \<le> 2 ^ 53"
      using bound [of rowA j] split_abs [of j] rest [of rowA j] by linarith
  qed
  from multiplyInner_cells [OF assms(3) Cons.prems(3) b(1,2) inner] obtain r1 where
    r1: "multiplyInner rowA colA valueA result bs = Inr r1"
    and d: "rows r1 = rows result" "cols r1 = cols result"
    and c1: "\<forall>i j. cell r1 i j =
        cell result i j + (if i = rowA then valueA * lookupEntry bs colA j else 0)"
    by blast
  have b1: "\<forall>i j. \<bar>cell r1 i j\<bar>
      + (\<Sum>k\<leftarrow>[0..<nat n]. \<bar>lookupEntry as i (int k) * lookupEntry bs (int k) j\<bar>) \<le> 2 ^ 53"
  proof (intro allI)
    fix i j
    show "\<bar>cell r1 i j\<bar>
        + (\<Sum>k\<leftarrow>[0..<nat n]. \<bar>lookupEntry as i (int k) * lookupEntry bs (int k) j\<bar>) \<le> 2 ^ 53"
    proof (cases "i = rowA")
      case True
      have "cell r1 i j = cell result rowA j + valueA * lookupEntry bs colA j"
        using c1 True by simp
      then have "\<bar>cell r1 i j\<bar> \<le> \<bar>cell result rowA j\<bar> + \<bar>valueA * lookupEntry bs colA j\<bar>"
        by simp
      then show ?thesis
        using bound [of rowA j] split_abs [of j] unfolding True by linarith
    next
      case False
      then have "cell r1 i j = cell result i j" using c1 by simp
      then show ?thesis using bound [of i j] other_abs [OF False, of j] by simp
    qed
  qed
  have "list_all (keyInBounds (rows r1) n) (map fst as)"
    "list_all (keyInBounds n' (cols r1)) (map fst bs)"
    using Cons.prems(2,3) d by simp_all
  from Cons.IH [OF dist this b1] obtain result' where
    res: "multiplyOuter bs r1 as = Inr result'"
    and d': "rows result' = rows r1" "cols result' = cols r1"
    and cells: "\<forall>i j. cell result' i j =
        cell r1 i j + (\<Sum>k\<leftarrow>[0..<nat n]. lookupEntry as i (int k) * lookupEntry bs (int k) j)"
    by blast
  have step: "multiplyOuter bs result (x # as) = Inr result'"
    using x pk r1 res by simp
  have "cell result' i j = cell result i j
      + (\<Sum>k\<leftarrow>[0..<nat n]. lookupEntry (x # as) i (int k) * lookupEntry bs (int k) j)" for i j
  proof (cases "i = rowA")
    case True
    have "(\<Sum>k\<leftarrow>[0..<nat n]. lookupEntry (x # as) i (int k) * lookupEntry bs (int k) j)
        = (\<Sum>k\<leftarrow>[0..<nat n]. (if int k = colA then valueA else lookupEntry as rowA (int k))
              * lookupEntry bs (int k) j)"
      using x key True by (simp add: lookupEntry_Cons)
    also have "\<dots> = valueA * lookupEntry bs colA j
        + (\<Sum>k\<leftarrow>[0..<nat n]. lookupEntry as rowA (int k) * lookupEntry bs (int k) j)"
      using b(3,4) absent by (rule sum_list_update_point)
    finally show ?thesis using cells c1 True by simp
  next
    case False
    then have "lookupEntry (x # as) i k = lookupEntry as i k" for k
      using x key by (simp add: lookupEntry_Cons)
    then show ?thesis using cells c1 False by simp
  qed
  then show ?case using step d d' by simp
qed

lemma spec_productCell_cells:
  assumes "0 \<le> i" and "i < rows a" and "0 \<le> j" and "j < cols b" and "cols a = rows b"
  shows "spec_productCell a b i j
         = (\<Sum>k\<leftarrow>[0..<nat (cols a)]. lookupEntry (elements a) i (int k) * lookupEntry (elements b) (int k) j)"
proof -
  have "(case getElement a i (int k) of Inr x \<Rightarrow> x | Inl e \<Rightarrow> 0)
          * (case getElement b (int k) j of Inr y \<Rightarrow> y | Inl e \<Rightarrow> 0)
        = lookupEntry (elements a) i (int k) * lookupEntry (elements b) (int k) j"
    if "k \<in> set [0..<nat (cols a)]" for k
  proof -
    have "int k < cols a" using that by auto
    then have "\<not> outOfBounds a i (int k)" "\<not> outOfBounds b (int k) j"
      using assms by (simp_all add: outOfBounds_def)
    then show ?thesis
      by (simp add: getElement_cell cell_lookupEntry)
  qed
  then show ?thesis
    unfolding spec_productCell_def by (intro arg_cong [where f = sum_list] map_cong) simp_all
qed

lemma lookupEntry_outside:
  assumes "wellKeyed m" and "\<not> (0 \<le> i \<and> i < rows m \<and> 0 \<le> j \<and> j < cols m)"
  shows "lookupEntry (elements m) i j = 0"
proof (rule lookupEntry_absent, rule notI)
  assume "createKey i j \<in> fst ` set (elements m)"
  then have "keyInBounds (rows m) (cols m) (createKey i j)"
    using assms(1) by (auto simp: wellKeyed_def list_all_iff)
  then obtain r c where "createKey i j = createKey r c"
    and "0 \<le> r" "r < rows m" "0 \<le> c" "c < cols m"
    by (rule keyInBoundsE)
  then show False using assms(2) by (simp add: createKey_inj)
qed

lemma exactProducts_bound:
  assumes "wellKeyed a" and "wellKeyed b" and "exactProducts a b"
  shows "(\<Sum>k\<leftarrow>[0..<nat (cols a)].
            \<bar>lookupEntry (elements a) i (int k) * lookupEntry (elements b) (int k) j\<bar>) \<le> 2 ^ 53"
proof (cases "0 \<le> i \<and> i < rows a \<and> 0 \<le> j \<and> j < cols b")
  case True
  then have "nat i \<in> set [0..<nat (rows a)]" "nat j \<in> set [0..<nat (cols b)]" by auto
  then have "(\<Sum>k\<leftarrow>[0..<nat (cols a)].
      \<bar>cell a (int (nat i)) (int k) * cell b (int k) (int (nat j))\<bar>) \<le> 2 ^ 53"
    using assms(3) unfolding exactProducts_def list_all_iff by blast
  then show ?thesis using True by (simp add: cell_lookupEntry)
next
  case False
  have "\<bar>lookupEntry (elements a) i (int k) * lookupEntry (elements b) (int k) j\<bar> = 0" for k
  proof (cases "0 \<le> i \<and> i < rows a")
    case inside: True
    then have "\<not> (0 \<le> int k \<and> int k < rows b \<and> 0 \<le> j \<and> j < cols b)" using False by blast
    then have "lookupEntry (elements b) (int k) j = 0"
      using assms(2) by (rule lookupEntry_outside [rotated])
    then show ?thesis by simp
  next
    case outside: False
    then have "\<not> (0 \<le> i \<and> i < rows a \<and> 0 \<le> int k \<and> int k < cols a)" by blast
    then have "lookupEntry (elements a) i (int k) = 0"
      using assms(1) by (rule lookupEntry_outside [rotated])
    then show ?thesis by simp
  qed
  then show ?thesis by (simp only:) simp
qed

text \<open>
  C4 (amended).  For matrices \<open>a\<close> and \<open>b\<close> as the interface produces them (keys in
  bounds), with dimensions of at most \<open>2^53\<close>: \<open>a.multiply(b)\<close> fails with the
  dimension-mismatch error when \<open>a.cols\<close> differs from \<open>b.rows\<close>.  Otherwise, when at
  every coordinate of the product the absolute values of the products
  \<open>a[i][k] * b[k][j]\<close> sum to at most \<open>2^53\<close> (so that no product and no partial sum is
  rounded), it returns a matrix with the rows of \<open>a\<close> and the columns of \<open>b\<close>, whose
  entry at every coordinate \<open>(i, j)\<close> in bounds is the sum over \<open>k\<close> of
  \<open>a.getElement(i, k) * b.getElement(k, j)\<close>, in integer arithmetic.
\<close>

theorem C4_multiply:
  assumes "wellKeyed a" and "wellKeyed b" and "safeDims a" and "safeDims b"
  shows "(cols a \<noteq> rows b \<longrightarrow> multiply a b = Inl DimensionMismatch)
       \<and> (cols a = rows b \<and> exactProducts a b \<longrightarrow>
            (\<exists>p. multiply a b = Inr p \<and> rows p = rows a \<and> cols p = cols b
               \<and> (\<forall>i j. 0 \<le> i \<and> i < rows a \<and> 0 \<le> j \<and> j < cols b \<longrightarrow>
                     getElement p i j = Inr (spec_productCell a b i j))))"
proof -
  have mismatch: "cols a \<noteq> rows b \<longrightarrow> multiply a b = Inl DimensionMismatch"
    by (simp add: multiply_def)
  have product: "\<exists>p. multiply a b = Inr p \<and> rows p = rows a \<and> cols p = cols b
               \<and> (\<forall>i j. 0 \<le> i \<and> i < rows a \<and> 0 \<le> j \<and> j < cols b \<longrightarrow>
                     getElement p i j = Inr (spec_productCell a b i j))"
    if inner: "cols a = rows b" and exact: "exactProducts a b"
  proof -
    let ?N = "newMatrix (rows a) (cols b)"
    have da: "distinct (map fst (elements a))"
      and ka: "list_all (keyInBounds (rows ?N) (cols a)) (map fst (elements a))"
      using assms(1) by (simp_all add: wellKeyed_def newMatrix_def)
    have db: "distinct (map fst (elements b))"
      and kb: "list_all (keyInBounds (rows b) (cols ?N)) (map fst (elements b))"
      using assms(2) by (simp_all add: wellKeyed_def newMatrix_def)
    have bound: "\<forall>i j. \<bar>cell ?N i j\<bar>
        + (\<Sum>k\<leftarrow>[0..<nat (cols a)].
             \<bar>lookupEntry (elements a) i (int k) * lookupEntry (elements b) (int k) j\<bar>) \<le> 2 ^ 53"
      using exactProducts_bound [OF assms(1,2) exact] by (simp add: cell_newMatrix)
    from multiplyOuter_cells [OF da ka db kb bound] obtain p where
      p: "multiplyOuter (elements b) ?N (elements a) = Inr p"
      and d: "rows p = rows ?N" "cols p = cols ?N"
      and cells: "\<forall>i j. cell p i j = cell ?N i j
          + (\<Sum>k\<leftarrow>[0..<nat (cols a)]. lookupEntry (elements a) i (int k)
                * lookupEntry (elements b) (int k) j)"
      by blast
    have dims: "rows p = rows a" "cols p = cols b"
      using d by (simp_all add: newMatrix_def)
    have "getElement p i j = Inr (spec_productCell a b i j)"
      if "0 \<le> i \<and> i < rows a \<and> 0 \<le> j \<and> j < cols b" for i j
    proof -
      have "\<not> outOfBounds p i j" using that dims by (simp add: outOfBounds_def)
      then have "getElement p i j = Inr (cell p i j)" by (simp add: getElement_cell)
      moreover have "cell p i j = spec_productCell a b i j"
        using cells that inner by (simp add: cell_newMatrix spec_productCell_cells)
      ultimately show ?thesis by simp
    qed
    moreover have "multiply a b = Inr p" using inner p by (simp add: multiply_def)
    ultimately show ?thesis using dims by blast
  qed
  show ?thesis using mismatch product by blast
qed

theorem C4_multiply_witness:
  "wellKeyed \<lparr>rows = 2, cols = 2, elements = [(''0,0'', 1), (''0,1'', 2), (''1,0'', 3), (''1,1'', 4)], elementCount = 4\<rparr>
   \<and> wellKeyed \<lparr>rows = 2, cols = 3, elements = [(''0,0'', 1), (''1,1'', 1), (''1,2'', - 2)], elementCount = 3\<rparr>
   \<and> safeDims \<lparr>rows = 2, cols = 2, elements = [(''0,0'', 1), (''0,1'', 2), (''1,0'', 3), (''1,1'', 4)], elementCount = 4\<rparr>
   \<and> safeDims \<lparr>rows = 2, cols = 3, elements = [(''0,0'', 1), (''1,1'', 1), (''1,2'', - 2)], elementCount = 3\<rparr>
   \<and> exactProducts \<lparr>rows = 2, cols = 2, elements = [(''0,0'', 1), (''0,1'', 2), (''1,0'', 3), (''1,1'', 4)], elementCount = 4\<rparr>
        \<lparr>rows = 2, cols = 3, elements = [(''0,0'', 1), (''1,1'', 1), (''1,2'', - 2)], elementCount = 3\<rparr>
   \<and> multiply \<lparr>rows = 2, cols = 2, elements = [(''0,0'', 1), (''0,1'', 2), (''1,0'', 3), (''1,1'', 4)], elementCount = 4\<rparr>
        \<lparr>rows = 2, cols = 3, elements = [(''0,0'', 1), (''1,1'', 1), (''1,2'', - 2)], elementCount = 3\<rparr>
      = Inr \<lparr>rows = 2, cols = 3,
             elements = [(''0,0'', 1), (''0,1'', 2), (''0,2'', - 4), (''1,0'', 3), (''1,1'', 4), (''1,2'', - 8)],
             elementCount = 6\<rparr>
   \<and> getElement \<lparr>rows = 2, cols = 3,
             elements = [(''0,0'', 1), (''0,1'', 2), (''0,2'', - 4), (''1,0'', 3), (''1,1'', 4), (''1,2'', - 8)],
             elementCount = 6\<rparr> 1 2 = Inr (- 8)
   \<and> multiply \<lparr>rows = 2, cols = 3, elements = [(''0,0'', 1), (''1,1'', 1), (''1,2'', - 2)], elementCount = 3\<rparr>
        \<lparr>rows = 2, cols = 2, elements = [(''0,0'', 1), (''0,1'', 2), (''1,0'', 3), (''1,1'', 4)], elementCount = 4\<rparr>
      = Inl DimensionMismatch"
proof -
  let ?a = "\<lparr>rows = 2, cols = 2, elements = [(''0,0'', 1), (''0,1'', 2), (''1,0'', 3), (''1,1'', 4)], elementCount = 4\<rparr>"
  let ?b = "\<lparr>rows = 2, cols = 3, elements = [(''0,0'', 1), (''1,1'', 1), (''1,2'', - 2)], elementCount = 3\<rparr>"
  let ?p = "\<lparr>rows = 2, cols = 3,
             elements = [(''0,0'', 1), (''0,1'', 2), (''0,2'', - 4), (''1,0'', 3), (''1,1'', 4), (''1,2'', - 8)],
             elementCount = 6\<rparr>"
  have wa: "wellKeyed ?a" by code_simp
  have wb: "wellKeyed ?b" by code_simp
  have sa: "safeDims ?a" by (simp add: safeDims_def)
  have sb: "safeDims ?b" by (simp add: safeDims_def)
  have ex: "exactProducts ?a ?b" by code_simp
  have m: "multiply ?a ?b = Inr ?p" by code_simp
  have sp: "spec_productCell ?a ?b 1 2 = - 8" by code_simp
  from C4_multiply [OF wa wb sa sb] ex obtain p where p: "multiply ?a ?b = Inr p"
    and g: "\<forall>i j. 0 \<le> i \<and> i < rows ?a \<and> 0 \<le> j \<and> j < cols ?b \<longrightarrow>
        getElement p i j = Inr (spec_productCell ?a ?b i j)"
    by auto
  have "p = ?p" using p m by simp
  then have g12: "getElement ?p 1 2 = Inr (- 8)"
    using g [rule_format, of 1 2] sp by simp
  have mm: "multiply ?b ?a = Inl DimensionMismatch"
    using C4_multiply [OF wb wa sb sa] by simp
  show ?thesis using wa wb sa sb ex m g12 mm by simp
qed

text \<open>
  The entry \<open>94906267\<close> has the square \<open>9007199515875289\<close>, above \<open>2^53\<close> and odd: the
  code computes the nearest double, \<open>9007199515875288\<close>, so the claim without the range
  does not hold.
\<close>

theorem C4_rounded_product_counterexample:
  "multiply \<lparr>rows = 1, cols = 1, elements = [(''0,0'', 94906267)], elementCount = 1\<rparr>
            \<lparr>rows = 1, cols = 1, elements = [(''0,0'', 94906267)], elementCount = 1\<rparr>
     = Inr \<lparr>rows = 1, cols = 1, elements = [(''0,0'', 9007199515875288)], elementCount = 1\<rparr>
   \<and> spec_productCell \<lparr>rows = 1, cols = 1, elements = [(''0,0'', 94906267)], elementCount = 1\<rparr>
            \<lparr>rows = 1, cols = 1, elements = [(''0,0'', 94906267)], elementCount = 1\<rparr> 0 0
     = 9007199515875289"
  by code_simp

lemma interface_matrices:
  "wellKeyed (newMatrix numRows numCols) \<and> sparsityInvariant (newMatrix numRows numCols)"
  "loadFromFile doc = Inr m0 \<Longrightarrow> wellKeyed m0 \<and> sparsityInvariant m0"
  "wellKeyed m \<Longrightarrow> sparsityInvariant m \<Longrightarrow> setElement m row col v = Inr m' \<Longrightarrow>
     wellKeyed m' \<and> sparsityInvariant m'"
  "add a b = Inr s \<Longrightarrow> wellKeyed s \<and> sparsityInvariant s"
  "subtract a b = Inr d \<Longrightarrow> wellKeyed d \<and> sparsityInvariant d"
  "multiply a b = Inr p \<Longrightarrow> wellKeyed p \<and> sparsityInvariant p"
proof -
  show new: "wellKeyed (newMatrix r c) \<and> sparsityInvariant (newMatrix r c)" for r c
    by (simp add: wellKeyed_newMatrix sparsityInvariant_newMatrix)
  show "loadFromFile doc = Inr m0 \<Longrightarrow> wellKeyed m0 \<and> sparsityInvariant m0"
    using loadFromFile_invariants by blast
  show "wellKeyed m \<Longrightarrow> sparsityInvariant m \<Longrightarrow> setElement m row col v = Inr m' \<Longrightarrow>
     wellKeyed m' \<and> sparsityInvariant m'"
    using setElement_wellKeyed setElement_sparsityInvariant by blast
  show "wellKeyed s \<and> sparsityInvariant s" if "add a b = Inr s"
  proof -
    from that obtain r0 where r0: "copyEntries (newMatrix (rows a) (cols a)) (elements a) = Inr r0"
      and s: "combineEntries (\<lambda>a b. roundToDouble (a + b)) r0 (elements b) = Inr s"
      by (auto simp: add_def split: if_splits sum.splits)
    have "wellKeyed r0 \<and> sparsityInvariant r0"
      using copyEntries_invariants [OF r0] new by simp
    then show ?thesis using combineEntries_invariants [OF s] by simp
  qed
  show "wellKeyed d \<and> sparsityInvariant d" if "subtract a b = Inr d"
  proof -
    from that obtain r0 where r0: "copyEntries (newMatrix (rows a) (cols a)) (elements a) = Inr r0"
      and s: "combineEntries (\<lambda>a b. roundToDouble (a - b)) r0 (elements b) = Inr d"
      by (auto simp: subtract_def split: if_splits sum.splits)
    have "wellKeyed r0 \<and> sparsityInvariant r0"
      using copyEntries_invariants [OF r0] new by simp
    then show ?thesis using combineEntries_invariants [OF s] by simp
  qed
  show "wellKeyed p \<and> sparsityInvariant p" if "multiply a b = Inr p"
  proof -
    from that have
      "multiplyOuter (elements b) (newMatrix (rows a) (cols b)) (elements a) = Inr p"
      by (auto simp: multiply_def split: if_splits)
    from multiplyOuter_invariants [OF this] new show ?thesis by simp
  qed
qed

text \<open>
  C6.  The invariant (no stored value is zero, \<open>elementCount\<close> is the number of stored
  entries) holds for a matrix made with dimensions and for a loaded matrix, is kept by
  \<open>setElement\<close>, and holds for the results of \<open>add\<close>, \<open>subtract\<close> and \<open>multiply\<close>.
\<close>

theorem C6_sparsity_invariant:
  "sparsityInvariant (newMatrix numRows numCols)
   \<and> (loadFromFile doc = Inr m0 \<longrightarrow> sparsityInvariant m0)
   \<and> (sparsityInvariant m \<and> setElement m row col v = Inr m' \<longrightarrow> sparsityInvariant m')
   \<and> (add a b = Inr s \<longrightarrow> sparsityInvariant s)
   \<and> (subtract a b = Inr d \<longrightarrow> sparsityInvariant d)
   \<and> (multiply a b = Inr p \<longrightarrow> sparsityInvariant p)"
  using interface_matrices(1) [of numRows numCols] interface_matrices(2) [of doc m0]
    setElement_sparsityInvariant [of m row col v m'] interface_matrices(4) [of a b s]
    interface_matrices(5) [of a b d] interface_matrices(6) [of a b p]
  by blast

theorem C6_sparsity_invariant_witness:
  "loadFromFile ''rows=2\<newline>cols=3\<newline>(0, 1, 4)\<newline>(1, 2, 0)\<newline>(0, 1, 6)''
     = Inr \<lparr>rows = 2, cols = 3, elements = [(''0,1'', 6)], elementCount = 1\<rparr>
   \<and> sparsityInvariant \<lparr>rows = 2, cols = 3, elements = [(''0,1'', 6)], elementCount = 1\<rparr>
   \<and> setElement \<lparr>rows = 2, cols = 3, elements = [(''0,1'', 6)], elementCount = 1\<rparr> 0 1 0
     = Inr \<lparr>rows = 2, cols = 3, elements = [], elementCount = 0\<rparr>
   \<and> sparsityInvariant \<lparr>rows = 2, cols = 3, elements = [], elementCount = 0\<rparr>
   \<and> add \<lparr>rows = 2, cols = 3, elements = [(''0,1'', 6)], elementCount = 1\<rparr>
          \<lparr>rows = 2, cols = 3, elements = [(''0,1'', - 6), (''1,0'', 2)], elementCount = 2\<rparr>
     = Inr \<lparr>rows = 2, cols = 3, elements = [(''1,0'', 2)], elementCount = 1\<rparr>
   \<and> sparsityInvariant \<lparr>rows = 2, cols = 3, elements = [(''1,0'', 2)], elementCount = 1\<rparr>
   \<and> subtract \<lparr>rows = 2, cols = 3, elements = [(''0,1'', 6)], elementCount = 1\<rparr>
          \<lparr>rows = 2, cols = 3, elements = [(''0,1'', 6), (''1,0'', 2)], elementCount = 2\<rparr>
     = Inr \<lparr>rows = 2, cols = 3, elements = [(''1,0'', - 2)], elementCount = 1\<rparr>
   \<and> sparsityInvariant \<lparr>rows = 2, cols = 3, elements = [(''1,0'', - 2)], elementCount = 1\<rparr>
   \<and> multiply \<lparr>rows = 3, cols = 2, elements = [(''2,0'', 5), (''2,1'', 1)], elementCount = 2\<rparr>
          \<lparr>rows = 2, cols = 3, elements = [(''0,1'', 6), (''1,1'', - 30)], elementCount = 2\<rparr>
     = Inr \<lparr>rows = 3, cols = 3, elements = [], elementCount = 0\<rparr>
   \<and> sparsityInvariant \<lparr>rows = 3, cols = 3, elements = [], elementCount = 0\<rparr>"
proof -
  let ?doc = "''rows=2\<newline>cols=3\<newline>(0, 1, 4)\<newline>(1, 2, 0)\<newline>(0, 1, 6)''"
  let ?m = "\<lparr>rows = 2, cols = 3, elements = [(''0,1'', 6)], elementCount = 1\<rparr>"
  let ?e = "\<lparr>rows = 2, cols = 3, elements = [], elementCount = 0\<rparr>"
  let ?b = "\<lparr>rows = 2, cols = 3, elements = [(''0,1'', - 6), (''1,0'', 2)], elementCount = 2\<rparr>"
  let ?s = "\<lparr>rows = 2, cols = 3, elements = [(''1,0'', 2)], elementCount = 1\<rparr>"
  let ?c = "\<lparr>rows = 2, cols = 3, elements = [(''0,1'', 6), (''1,0'', 2)], elementCount = 2\<rparr>"
  let ?d = "\<lparr>rows = 2, cols = 3, elements = [(''1,0'', - 2)], elementCount = 1\<rparr>"
  let ?x = "\<lparr>rows = 3, cols = 2, elements = [(''2,0'', 5), (''2,1'', 1)], elementCount = 2\<rparr>"
  let ?y = "\<lparr>rows = 2, cols = 3, elements = [(''0,1'', 6), (''1,1'', - 30)], elementCount = 2\<rparr>"
  let ?p = "\<lparr>rows = 3, cols = 3, elements = [], elementCount = 0\<rparr>"
  have l: "loadFromFile ?doc = Inr ?m" by code_simp
  have st: "setElement ?m 0 1 0 = Inr ?e" by code_simp
  have ad: "add ?m ?b = Inr ?s" by code_simp
  have sb: "subtract ?m ?c = Inr ?d" by code_simp
  have ml: "multiply ?x ?y = Inr ?p" by code_simp
  have i1: "sparsityInvariant ?m"
    using C6_sparsity_invariant [of 0 0 ?doc ?m] l by blast
  have i2: "sparsityInvariant ?e"
    using C6_sparsity_invariant [of 0 0 ?doc ?m ?m 0 1 0 ?e] i1 st by blast
  have i3: "sparsityInvariant ?s"
    using C6_sparsity_invariant [of 0 0 ?doc ?m ?m 0 1 0 ?e ?m ?b ?s] ad by blast
  have i4: "sparsityInvariant ?d"
    using C6_sparsity_invariant [of 0 0 ?doc ?m ?m 0 1 0 ?e ?m ?c ?s ?d] sb by blast
  have i5: "sparsityInvariant ?p"
    using C6_sparsity_invariant [of 0 0 ?doc ?m ?m 0 1 0 ?e ?x ?y ?s ?d ?p] ml by blast
  show ?thesis using l st ad sb ml i1 i2 i3 i4 i5 by blast
qed

subsection \<open>Serialisation and the round trip\<close>


lemma trim_nospace: "\<forall>ch \<in> set s. \<not> isSpace ch \<Longrightarrow> trim s = s"
proof -
  assume a: "\<forall>ch \<in> set s. \<not> isSpace ch"
  have "dropWhile isSpace s = s" using a by (cases s) auto
  moreover have "dropWhile isSpace (rev s) = rev s" using a by (cases "rev s") auto
  ultimately show ?thesis by (simp add: trim_def)
qed

lemma trim_ends:
  assumes "s \<noteq> []" and "\<not> isSpace (hd s)" and "\<not> isSpace (last s)"
  shows "trim s = s"
proof -
  have "dropWhile isSpace s = s" using assms(1,2) by (cases s) auto
  moreover have "dropWhile isSpace (rev s) = rev s"
    using assms(1,3) by (cases "rev s") (auto simp: last_rev [symmetric] simp del: last_rev)
  ultimately show ?thesis by (simp add: trim_def)
qed

lemma trim_leading_space: "isSpace ch \<Longrightarrow> trim (ch # s) = trim s"
  by (simp add: trim_def)

lemma trim_showInt: "trim (showInt i) = showInt i"
  by (rule trim_nospace) (simp add: showInt_no_space)

lemma trim_space_showInt: "trim (CHR '' '' # showInt i) = showInt i"
  by (simp add: trim_leading_space isSpace_def trim_showInt)


text \<open>An entry line with three tokens that hold no comma.\<close>

lemma parseElementLine_tokens:
  assumes "CHR '','' \<notin> set t0" and "CHR '','' \<notin> set t1" and "CHR '','' \<notin> set t2"
  shows "parseElementLine (''('' @ t0 @ '','' @ t1 @ '','' @ t2 @ '')'') =
      (case (parseInt (trim t0), parseInt (trim t1), parseInt (trim t2)) of
         (Some row, Some col, Some value) \<Rightarrow> Some (row, col, value)
       | _ \<Rightarrow> None)"
proof -
  let ?inner = "t0 @ '','' @ t1 @ '','' @ t2"
  let ?line = "''('' @ t0 @ '','' @ t1 @ '','' @ t2 @ '')''"
  have line: "?line = CHR ''('' # ?inner @ '')''" by simp
  have sw: "startsWith ?line ''(''" by (simp add: startsWith_def)
  have ew: "endsWith ?line '')''"
  proof -
    have "?line = (''('' @ ?inner) @ '')''" by simp
    then have "drop (length ?line - 1) ?line = '')''"
      by (metis (no_types, lifting) append_eq_conv_conj length_append add_diff_cancel_right'
          length_Cons list.size(3) One_nat_def)
    then show ?thesis by (simp add: endsWith_def)
  qed
  have sub: "substring ?line 1 (length ?line - 1) = ?inner"
    by (simp add: substring_def)
  have sp: "splitString ?inner (CHR '','') = [t0, t1, t2]"
    using assms by (simp add: splitString_append splitString_none)
  show ?thesis
    unfolding parseElementLine_def Let_def sub sp using sw ew
    by (simp split: option.splits)
qed

lemma parseElementLine_entryText: "parseElementLine (entryText (row, col, v)) = Some (row, col, v)"
proof -
  have no: "CHR '','' \<notin> set (showInt row)" "CHR '','' \<notin> set (CHR '' '' # showInt col)"
    "CHR '','' \<notin> set (CHR '' '' # showInt v)"
    by (simp_all add: showInt_no_comma)
  have "entryText (row, col, v)
      = ''('' @ showInt row @ '','' @ (CHR '' '' # showInt col) @ '','' @ (CHR '' '' # showInt v) @ '')''"
    by (simp add: entryText_def)
  then show ?thesis
    using parseElementLine_tokens [OF no]
    by (simp add: trim_showInt trim_space_showInt parseInt_showInt)
qed

lemma entryText_shape:
  "entryText e \<noteq> [] \<and> CHR 0x0A \<notin> set (entryText e) \<and> trim (entryText e) = entryText e"
proof -
  obtain row col v where e: "e = (row, col, v)" by (cases e) auto
  have ne: "entryText e \<noteq> []" using e by (simp add: entryText_def)
  have nl: "CHR 0x0A \<notin> set (entryText e)"
    using e by (simp add: entryText_def showInt_no_newline)
  have hd: "hd (entryText e) = CHR ''(''" using e by (simp add: entryText_def)
  have "entryText e = (''('' @ showInt row @ '', '' @ showInt col @ '', '' @ showInt v) @ '')''"
    using e by (simp add: entryText_def)
  then have lst: "last (entryText e) = CHR '')''"
    by (metis last_snoc)
  have "trim (entryText e) = entryText e"
    using ne hd lst by (intro trim_ends) (simp_all add: isSpace_def)
  then show ?thesis using ne nl by simp
qed

lemma lines_of_entries:
  "splitString (concat (map (\<lambda>e. entryText e @ [CHR 0x0A]) es)) (CHR 0x0A)
     = map entryText es @ [Nil]"
proof (induction es)
  case Nil
  show ?case by (simp add: splitString_none)
next
  case (Cons e es)
  have "CHR 0x0A \<notin> set (entryText e)" using entryText_shape by simp
  then show ?case using Cons.IH by (simp add: splitString_append)
qed

lemma validLinesOf_document:
  "validLinesOf (''rows='' @ showInt r @ [CHR 0x0A] @ ''cols='' @ showInt c @ [CHR 0x0A]
      @ concat (map (\<lambda>e. entryText e @ [CHR 0x0A]) es))
   = (''rows='' @ showInt r) # (''cols='' @ showInt c) # map entryText es"
proof -
  let ?h1 = "''rows='' @ showInt r" and ?h2 = "''cols='' @ showInt c"
  let ?body = "concat (map (\<lambda>e. entryText e @ [CHR 0x0A]) es)"
  have n1: "CHR 0x0A \<notin> set ?h1" and n2: "CHR 0x0A \<notin> set ?h2"
    by (simp_all add: showInt_no_newline)
  have t1: "trim ?h1 = ?h1" and t2: "trim ?h2 = ?h2"
    by (rule trim_nospace, auto simp: isSpace_def dest: showInt_no_space)+
  have "splitString (?h1 @ CHR 0x0A # ?h2 @ CHR 0x0A # ?body) (CHR 0x0A)
      = ?h1 # ?h2 # map entryText es @ [Nil]"
    using splitString_append [OF n1] splitString_append [OF n2] lines_of_entries by simp
  moreover have "map trim (map entryText es) = map entryText es"
    using entryText_shape by (simp add: map_idI)
  moreover have "filter (\<lambda>l. l \<noteq> []) (map entryText es) = map entryText es"
    using entryText_shape by (simp add: filter_id_conv)
  moreover have "trim [] = []" by (simp add: trim_def)
  ultimately show ?thesis
    using t1 t2 by (simp add: validLinesOf_def del: map_map)
qed

lemma those_entryText: "those (map parseElementLine (map entryText es)) = Some es"
proof (induction es)
  case Nil
  show ?case by simp
next
  case (Cons e es)
  obtain row col v where "e = (row, col, v)" by (cases e) auto
  then show ?case using Cons.IH by (simp add: parseElementLine_entryText)
qed

lemma documentParts_document:
  assumes "0 < r" and "0 < c" and "es \<noteq> []"
  shows "documentParts (''rows='' @ showInt r @ [CHR 0x0A] @ ''cols='' @ showInt c @ [CHR 0x0A]
      @ concat (map (\<lambda>e. entryText e @ [CHR 0x0A]) es)) = Some (r, c, es)"
proof -
  have len: "\<not> length ((''rows='' @ showInt r) # (''cols='' @ showInt c) # map entryText es) < 3"
    using assms(3) by (cases es) simp_all
  show ?thesis
    unfolding documentParts_def validLinesOf_document Let_def
    using len assms(1,2)
    by (simp add: startsWith_def parseInt_showInt those_entryText del: length_map map_map)
qed

lemma collectEntries_keys:
  assumes "list_all (keyInBounds r c) (map fst es)"
  shows "\<exists>entries. collectEntries es = Inr entries
           \<and> map (\<lambda>(row, col, v). (createKey row col, v)) entries = es
           \<and> list_all (\<lambda>(row, col, v). 0 \<le> row \<and> row < r \<and> 0 \<le> col \<and> col < c) entries"
  using assms
proof (induction es)
  case Nil
  then show ?case by simp
next
  case (Cons x es)
  obtain key v where x: "x = (key, v)" by (cases x) auto
  have "keyInBounds r c key" using Cons.prems x by simp
  then obtain row col where key: "key = createKey row col"
    and b: "0 \<le> row" "row < r" "0 \<le> col" "col < c"
    by (rule keyInBoundsE)
  from Cons.IH Cons.prems obtain entries where "collectEntries es = Inr entries"
    "map (\<lambda>(row, col, v). (createKey row col, v)) entries = es"
    "list_all (\<lambda>(row, col, v). 0 \<le> row \<and> row < r \<and> 0 \<le> col \<and> col < c) entries"
    by auto
  then show ?case
    using x key b by (simp add: parseKey_createKey)
qed

lemma finalDims_fits:
  assumes "0 < r" and "0 < c"
    and "list_all (\<lambda>(row, col, v). row < r \<and> col < c) es"
  shows "finalDims r c es = (r, c)"
proof -
  have "Max (insert 0 (set (map fst es))) < r"
    using assms(1,3) by (auto simp: list_all_iff)
  then have r: "\<not> r \<le> foldl max 0 (map fst es)"
    by (simp only: foldl_max_Max not_le)
  have "Max (insert 0 (set (map (\<lambda>e. fst (snd e)) es))) < c"
    using assms(2,3) by (auto simp: list_all_iff)
  then have c: "\<not> c \<le> foldl max 0 (map (\<lambda>e. fst (snd e)) es)"
    by (simp only: foldl_max_Max not_le)
  show ?thesis
    using r c by (simp add: finalDims_def Let_def)
qed

lemma secondPass_copyEntries:
  "list_all (\<lambda>(row, col, v). v \<noteq> 0) es \<Longrightarrow>
   secondPass m es = copyEntries m (map (\<lambda>(row, col, v). (createKey row col, v)) es)"
proof (induction es arbitrary: m)
  case Nil
  show ?case by simp
next
  case (Cons e es)
  obtain row col v where e: "e = (row, col, v)" by (cases e) auto
  show ?case
    using Cons e by (simp add: parseKey_createKey split: sum.splits)
qed

lemma serialise_roundtrip:
  assumes "wellKeyed m" and "sparsityInvariant m" and "0 < rows m" and "0 < cols m"
    and "elements m \<noteq> []"
  shows "\<exists>out m'. toString m = Inr out \<and> loadFromFile out = Inr m'
           \<and> rows m' = rows m \<and> cols m' = cols m
           \<and> wellKeyed m' \<and> sparsityInvariant m'
           \<and> (\<forall>i j. cell m' i j = cell m i j)"
proof -
  let ?f = "\<lambda>(row, col, v). (createKey row col, v :: int)"
  let ?N = "newMatrix (rows m) (cols m)"
  have keys: "list_all (keyInBounds (rows m) (cols m)) (map fst (elements m))"
    and dist: "distinct (map fst (elements m))"
    using assms(1) by (simp_all add: wellKeyed_def)
  from collectEntries_keys [OF keys] obtain entries where
    ce: "collectEntries (elements m) = Inr entries"
    and unparse: "map ?f entries = elements m"
    and bounds: "list_all (\<lambda>(row, col, v). 0 \<le> row \<and> row < rows m \<and> 0 \<le> col \<and> col < cols m) entries"
    by blast
  define srt where "srt = sort_key (\<lambda>(row, col, value). (row, col)) entries"
  define out where "out = ''rows='' @ showInt (rows m) @ [CHR 0x0A] @ ''cols='' @ showInt (cols m)
      @ [CHR 0x0A] @ concat (map (\<lambda>e. entryText e @ [CHR 0x0A]) srt)"
  have ts: "toString m = Inr out"
    using ce by (simp add: toString_def out_def srt_def)
  have set_sorted: "set srt = set entries" by (simp add: srt_def)
  have "entries \<noteq> []" using unparse assms(5) by auto
  then have ne: "srt \<noteq> []"
    using set_sorted by (metis set_empty)
  have parts: "documentParts out = Some (rows m, cols m, srt)"
    unfolding out_def using assms(3,4) ne by (rule documentParts_document)
  have fits: "list_all (\<lambda>(row, col, v). row < rows m \<and> col < cols m) srt"
    using bounds set_sorted by (auto simp: list_all_iff)
  have load: "loadFromFile out = secondPass ?N srt"
    using parts finalDims_fits [OF assms(3,4) fits] by (simp add: loadFromFile_parts)
  have mem: "(createKey row col, v) \<in> set (elements m)" if "(row, col, v) \<in> set srt" for row col v
  proof -
    have "?f (row, col, v) \<in> set (map ?f entries)"
      using that set_sorted by (intro image_eqI [where x = "(row, col, v)"] | simp)+
    then show ?thesis using unparse by simp
  qed
  have nz: "list_all (\<lambda>(row, col, v). v \<noteq> 0) srt"
    unfolding list_all_iff
  proof
    fix e assume e: "e \<in> set srt"
    obtain row col v where rcv: "e = (row, col, v)" by (cases e) auto
    have "(createKey row col, v) \<in> set (elements m)" using mem e rcv by simp
    then have "v \<noteq> 0" using assms(2) by (force simp: sparsityInvariant_def list_all_iff)
    then show "case e of (row, col, v) \<Rightarrow> v \<noteq> 0" using rcv by simp
  qed
  have load': "loadFromFile out = copyEntries ?N (map ?f srt)"
    using load secondPass_copyEntries [OF nz] by simp
  have set_eq: "set (map ?f srt) = set (elements m)"
    using set_sorted unparse by (metis set_map)
  have "distinct (map (fst \<circ> ?f) entries)" using dist unparse by (metis map_map)
  then have "distinct entries" "inj_on (fst \<circ> ?f) (set entries)"
    by (simp_all add: distinct_map)
  then have "distinct (map (fst \<circ> ?f) srt)"
    using set_sorted by (simp add: distinct_map srt_def)
  then have dist': "distinct (map fst (map ?f srt))" by simp
  have keys': "list_all (keyInBounds (rows ?N) (cols ?N)) (map fst (map ?f srt))"
    using bounds set_sorted by (auto simp: list_all_iff keyInBounds_createKey newMatrix_def)
  from copyEntries_cells [OF dist' keys'] obtain m' where m': "copyEntries ?N (map ?f srt) = Inr m'"
    and d: "rows m' = rows ?N" "cols m' = cols ?N"
    and cells: "\<forall>i j. cell m' i j =
        (case map_of (map ?f srt) (createKey i j) of Some v \<Rightarrow> v | None \<Rightarrow> cell ?N i j)"
    by blast
  have "map_of (map ?f srt) = map_of (elements m)"
    using map_of_inject_set [OF dist' dist] set_eq by simp
  then have same: "cell m' i j = cell m i j" for i j
    using cells by (simp add: cell_newMatrix cell_def [of m] split: option.split)
  have inv: "wellKeyed m' \<and> sparsityInvariant m'"
    using copyEntries_invariants [OF m' wellKeyed_newMatrix sparsityInvariant_newMatrix] .
  have "loadFromFile out = Inr m'" using load' m' by simp
  then show ?thesis
    using ts d inv same by (auto simp: newMatrix_def)
qed

text \<open>
  C1 (amended).  For every text document that \<open>loadFromFile\<close> accepts, whose numbers
  are safe integers (magnitudes below \<open>2^53\<close>, which the code parses and prints exactly
  and in decimal digits) and that stores at least one entry, serialising the loaded
  matrix and loading the text again succeeds and gives a matrix with the same
  dimensions, the same value at every coordinate, the same set of stored entries and the
  same count.
\<close>

theorem C1_round_trip:
  assumes "documentParts doc = Some (r, c, es)" and "safeDocument r c es"
    and "loadFromFile doc = Inr m" and "elements m \<noteq> []"
  shows "\<exists>out m'. toString m = Inr out \<and> loadFromFile out = Inr m'
           \<and> rows m' = rows m \<and> cols m' = cols m
           \<and> (\<forall>i j. getElement m' i j = getElement m i j)
           \<and> set (elements m') = set (elements m)
           \<and> elementCount m' = elementCount m"
proof -
  have inv: "wellKeyed m" "sparsityInvariant m"
    using loadFromFile_invariants [OF assms(3)] by simp_all
  have "0 < r" "0 < c" using documentParts_positive [OF assms(1)] by simp_all
  then have "0 < fst (finalDims r c es) \<and> 0 < snd (finalDims r c es)"
    using safeDocument_coordinates [OF assms(2)] by (rule finalDims_positive)
  moreover have "fst (finalDims r c es) = rows m" "snd (finalDims r c es) = cols m"
    using loadFromFile_dims [OF assms(1,3)] by (simp_all add: prod_eq_iff)
  ultimately have pos: "0 < rows m" "0 < cols m" by simp_all
  from serialise_roundtrip [OF inv pos assms(4)] obtain out m' where
    t: "toString m = Inr out" and l: "loadFromFile out = Inr m'"
    and d: "rows m' = rows m" "cols m' = cols m"
    and inv': "wellKeyed m'" "sparsityInvariant m'"
    and cells: "\<forall>i j. cell m' i j = cell m i j"
    by blast
  have "getElement m' i j = getElement m i j" for i j
    using cells d by (simp add: getElement_cell outOfBounds_def)
  moreover have "set (elements m') = set (elements m) \<and> elementCount m' = elementCount m"
    using entries_equal [OF inv' inv(1,2)] cells by simp
  ultimately show ?thesis using t l d by blast
qed

theorem C1_round_trip_witness:
  "documentParts ''rows=2\<newline>cols=2\<newline>(1,0,7)\<newline>\<newline>  (0, 1, -3)  \<newline>(1, 0, 8)''
     = Some (2, 2, [(1, 0, 7), (0, 1, - 3), (1, 0, 8)])
   \<and> safeDocument 2 2 [(1, 0, 7), (0, 1, - 3), (1, 0, 8)]
   \<and> loadFromFile ''rows=2\<newline>cols=2\<newline>(1,0,7)\<newline>\<newline>  (0, 1, -3)  \<newline>(1, 0, 8)''
     = Inr \<lparr>rows = 2, cols = 2, elements = [(''1,0'', 8), (''0,1'', - 3)], elementCount = 2\<rparr>
   \<and> toString \<lparr>rows = 2, cols = 2, elements = [(''1,0'', 8), (''0,1'', - 3)], elementCount = 2\<rparr>
     = Inr ''rows=2\<newline>cols=2\<newline>(0, 1, -3)\<newline>(1, 0, 8)\<newline>''
   \<and> loadFromFile ''rows=2\<newline>cols=2\<newline>(0, 1, -3)\<newline>(1, 0, 8)\<newline>''
     = Inr \<lparr>rows = 2, cols = 2, elements = [(''0,1'', - 3), (''1,0'', 8)], elementCount = 2\<rparr>
   \<and> set [(''0,1'', - 3), (''1,0'', 8 :: int)] = set [(''1,0'', 8), (''0,1'', - 3)]"
proof -
  let ?doc = "''rows=2\<newline>cols=2\<newline>(1,0,7)\<newline>\<newline>  (0, 1, -3)  \<newline>(1, 0, 8)''"
  let ?m = "\<lparr>rows = 2, cols = 2, elements = [(''1,0'', 8), (''0,1'', - 3)], elementCount = 2\<rparr>"
  let ?out = "''rows=2\<newline>cols=2\<newline>(0, 1, -3)\<newline>(1, 0, 8)\<newline>''"
  let ?m' = "\<lparr>rows = 2, cols = 2, elements = [(''0,1'', - 3), (''1,0'', 8)], elementCount = 2\<rparr>"
  have dp: "documentParts ?doc = Some (2, 2, [(1, 0, 7), (0, 1, - 3), (1, 0, 8)])" by code_simp
  have sd: "safeDocument 2 2 [(1, 0, 7), (0, 1, - 3), (1, 0, 8)]" by code_simp
  have l: "loadFromFile ?doc = Inr ?m" by code_simp
  have ne: "elements ?m \<noteq> []" by simp
  have t: "toString ?m = Inr ?out" by code_simp
  have l': "loadFromFile ?out = Inr ?m'" by code_simp
  from C1_round_trip [OF dp sd l ne] obtain out m' where
    "toString ?m = Inr out" "loadFromFile out = Inr m'" "set (elements m') = set (elements ?m)"
    by blast
  then have "set (elements ?m') = set (elements ?m)" using t l' by simp
  then show ?thesis using dp sd l t l' by simp
qed

text \<open>
  The claim as written also covers a document whose entries all have the value zero:
  the loaded matrix is empty, its text has two lines only, and loading that text fails.
\<close>

theorem C1_empty_matrix_counterexample:
  "loadFromFile ''rows=2\<newline>cols=2\<newline>(0, 0, 0)''
     = Inr \<lparr>rows = 2, cols = 2, elements = [], elementCount = 0\<rparr>
   \<and> toString \<lparr>rows = 2, cols = 2, elements = [], elementCount = 0\<rparr>
     = Inr ''rows=2\<newline>cols=2\<newline>''
   \<and> loadFromFile ''rows=2\<newline>cols=2\<newline>'' = Inl WrongFormat"
  by code_simp

subsection \<open>A lone minus sign\<close>









end
